theory Spec2Isabelle
  imports Main "HOL-Library.Word"
begin

section \<open>Machine types and kernel helpers\<close>

text \<open>
  \<^verbatim>\<open>size_t\<close> and pointers of the 64-bit kernel are \<open>64 word\<close>: addition and subtraction
  wrap around. A division by zero traps; the model returns \<open>DivByZero\<close> for it.
\<close>

type_synonym size_t = "64 word"

datatype error = DivByZero | BadNodeIndex nat | StillRunning

text \<open>
  Modelled from the spec: the macros \<^verbatim>\<open>rounddown\<close>, \<^verbatim>\<open>DIV_ROUND_UP\<close> and
  \<^verbatim>\<open>mult_frac\<close> of linux/kernel.h are not part of the sources at hand. The spec reads
  them as "round down to a multiple", "ceil(total_remaining / min_grain)" and
  "floor(x * 4 / 5)". The ceiling is computed the way the kernel macro computes it,
  \<^verbatim>\<open>((n) + (d) - 1) / (d)\<close> on \<^verbatim>\<open>size_t\<close> operands: the sum wraps around when
  \<open>n + d - 1\<close> does not fit in 64 bits. Callers check the divisor before using them.
\<close>

definition rounddown :: "size_t \<Rightarrow> size_t \<Rightarrow> size_t" where
  "rounddown x y = x - x mod y"

definition DIV_ROUND_UP :: "size_t \<Rightarrow> size_t \<Rightarrow> size_t" where
  "DIV_ROUND_UP n d = (n + d - 1) div d"

section \<open>The chunker\<close>

definition KTASK_LOAD_BAL_SHIFT :: nat where
  "KTASK_LOAD_BAL_SHIFT = 2"

definition KTASK_DEFAULT_MAX_THREADS :: size_t where
  "KTASK_DEFAULT_MAX_THREADS = 4"

definition ktask_max_threads :: size_t where
  "ktask_max_threads = KTASK_DEFAULT_MAX_THREADS"

text \<open>\<^verbatim>\<open>ktask_chunk_size(task_size, min_chunk_size, nworks)\<close>.\<close>

definition ktask_chunk_size :: "size_t \<Rightarrow> size_t \<Rightarrow> size_t \<Rightarrow> error + size_t" where
  "ktask_chunk_size task_size min_chunk_size nworks =
     (if nworks = 1 then Inr task_size
      else if nworks = 0 then Inl DivByZero
      else let chunk_size = drop_bit KTASK_LOAD_BAL_SHIFT (task_size div nworks)
           in if chunk_size > min_chunk_size
              then (if min_chunk_size = 0 then Inl DivByZero
                    else Inr (max (rounddown chunk_size min_chunk_size) min_chunk_size))
              else Inr (max chunk_size min_chunk_size))"

text \<open>
  The chunker as the specification words it, on natural numbers: with one worker the
  whole task; otherwise the candidate \<open>(total / workers) >> 2\<close>, rounded down to a
  multiple of the minimum grain when it exceeds it, and at least the minimum grain.
\<close>

definition chunk_size_spec :: "nat \<Rightarrow> nat \<Rightarrow> nat \<Rightarrow> nat" where
  "chunk_size_spec total_size min_grain workers =
     (if workers = 1 then total_size
      else
        let candidate = (total_size div workers) div 2 ^ 2;
            candidate1 = (if candidate > min_grain then (candidate div min_grain) * min_grain
                          else candidate)
        in max candidate1 min_grain)"

section \<open>Data model\<close>

definition NUMA_NO_NODE :: int where
  "NUMA_NO_NODE = - 1"

definition KTASK_RETURN_SUCCESS :: int where
  "KTASK_RETURN_SUCCESS = 0"

text \<open>\<^verbatim>\<open>struct ktask_node\<close>: start cursor, remaining size, node id.\<close>

record ktask_node =
  kn_start :: size_t
  kn_task_size :: size_t
  kn_nid :: int

text \<open>
  \<^verbatim>\<open>struct ktask_ctl\<close>. The processing callback \<^verbatim>\<open>kc_thread_func\<close> (with its
  argument \<^verbatim>\<open>kc_func_arg\<close>) runs outside every lock and may depend on anything; its
  return values are supplied by the environment, one per invocation (\<open>ch_ret\<close> below),
  and every invocation is recorded in \<open>sys_calls\<close>.
\<close>

record ktask_ctl =
  kc_iter_func :: "size_t \<Rightarrow> size_t \<Rightarrow> size_t"
  kc_min_chunk_size :: size_t
  kc_max_threads :: size_t

text \<open>\<^verbatim>\<open>ktask_iter_range\<close>, the default iterator.\<close>

definition ktask_iter_range :: "size_t \<Rightarrow> size_t \<Rightarrow> size_t" where
  "ktask_iter_range position sz = position + sz"

text \<open>
  \<^verbatim>\<open>struct ktask_work\<close>. The back pointer \<^verbatim>\<open>kw_task\<close> is implicit (one task per
  system state); the list linkage \<^verbatim>\<open>kw_list\<close> is the position in a HOL list.
\<close>

record ktask_work =
  kw_ktask_node_i :: nat
  kw_queue_nid :: int

text \<open>
  The resource limits \<^verbatim>\<open>ktask_rlim_*\<close>. The two per-node arrays have
  \<^verbatim>\<open>num_possible_nodes()\<close> entries. C does not check array indices: an access outside
  an array reads whatever lies there. The model takes such a value from the environment
  (\<open>env_stray_cur\<close>, \<open>env_stray_max\<close>), leaves the arrays unchanged on such a write,
  and records the offending index in the ghost field \<open>rlim_oob\<close>.
\<close>

record ktask_rlim =
  ktask_rlim_cur :: size_t
  ktask_rlim_max :: size_t
  ktask_rlim_node_cur :: "size_t list"
  ktask_rlim_node_max :: "size_t list"
  rlim_oob :: "int list"

text \<open>
  What the code asks of its surroundings: \<^verbatim>\<open>IS_ENABLED(CONFIG_NUMA)\<close>,
  \<^verbatim>\<open>num_online_nodes()\<close>, \<^verbatim>\<open>num_online_cpus()\<close>, whether \<^verbatim>\<open>ktask_wq\<close> was
  allocated, \<^verbatim>\<open>numa_node_id()\<close>, and whether the calling thread has \<^verbatim>\<open>PF_KTHREAD\<close>
  set (workqueue workers always have).
\<close>

record ktask_env =
  env_numa :: bool
  env_online_nodes :: nat
  env_online_cpus :: size_t
  env_wq :: bool
  env_node_id :: int
  env_caller_kthread :: bool
  env_stray_cur :: "int \<Rightarrow> size_t"
  env_stray_max :: "int \<Rightarrow> size_t"

definition idx_ok :: "'a list \<Rightarrow> int \<Rightarrow> bool" where
  "idx_ok a i = (0 \<le> i \<and> i < int (length a))"

definition arr_rd :: "(int \<Rightarrow> size_t) \<Rightarrow> size_t list \<Rightarrow> int \<Rightarrow> size_t" where
  "arr_rd stray a i = (if idx_ok a i then a ! nat i else stray i)"

definition arr_wr :: "size_t list \<Rightarrow> int \<Rightarrow> size_t \<Rightarrow> size_t list" where
  "arr_wr a i v = (if idx_ok a i then a[nat i := v] else a)"

definition oob_note :: "size_t list \<Rightarrow> int \<Rightarrow> ktask_rlim \<Rightarrow> ktask_rlim" where
  "oob_note a i rl = (if idx_ok a i then rl else rl\<lparr>rlim_oob := rlim_oob rl @ [i]\<rparr>)"

text \<open>\<^verbatim>\<open>ktask_rlim_node_cur[i]\<close> and \<^verbatim>\<open>ktask_rlim_node_max[i]\<close> as values.\<close>

definition node_cur_rd :: "ktask_env \<Rightarrow> ktask_rlim \<Rightarrow> int \<Rightarrow> size_t" where
  "node_cur_rd env rl i = arr_rd (env_stray_cur env) (ktask_rlim_node_cur rl) i"

definition node_max_rd :: "ktask_env \<Rightarrow> ktask_rlim \<Rightarrow> int \<Rightarrow> size_t" where
  "node_max_rd env rl i = arr_rd (env_stray_max env) (ktask_rlim_node_max rl) i"

text \<open>The bookkeeping of one evaluation of
  \<^verbatim>\<open>ktask_rlim_node_cur[i] < ktask_rlim_node_max[i]\<close>.\<close>

definition node_cmp_note :: "int \<Rightarrow> ktask_rlim \<Rightarrow> ktask_rlim" where
  "node_cmp_note i rl =
     oob_note (ktask_rlim_node_max rl) i (oob_note (ktask_rlim_node_cur rl) i rl)"

text \<open>\<^verbatim>\<open>++ktask_rlim_node_cur[i]\<close> and \<^verbatim>\<open>--ktask_rlim_node_cur[i]\<close>.\<close>

definition node_cur_inc :: "ktask_env \<Rightarrow> int \<Rightarrow> ktask_rlim \<Rightarrow> ktask_rlim" where
  "node_cur_inc env i rl =
     (oob_note (ktask_rlim_node_cur rl) i rl)
       \<lparr>ktask_rlim_node_cur := arr_wr (ktask_rlim_node_cur rl) i (node_cur_rd env rl i + 1)\<rparr>"

definition node_cur_dec :: "ktask_env \<Rightarrow> int \<Rightarrow> ktask_rlim \<Rightarrow> ktask_rlim" where
  "node_cur_dec env i rl =
     (oob_note (ktask_rlim_node_cur rl) i rl)
       \<lparr>ktask_rlim_node_cur := arr_wr (ktask_rlim_node_cur rl) i (node_cur_rd env rl i - 1)\<rparr>"

section \<open>Migration\<close>

text \<open>
  \<^verbatim>\<open>ktask_node_migrate(old_kn, kn, ktask_node_i, kw, kt)\<close>, run by a thread whose
  \<^verbatim>\<open>PF_KTHREAD\<close> flag is \<open>pf_kthread\<close>. Returns whether the work was requeued, the
  rewritten work record and the resource limits. Queueing itself
  (\<^verbatim>\<open>ktask_queue_work\<close>) is the worker becoming runnable again, see \<open>thread_loop\<close>.
\<close>

definition ktask_node_migrate ::
  "ktask_env \<Rightarrow> bool \<Rightarrow> ktask_node \<Rightarrow> ktask_node \<Rightarrow> nat \<Rightarrow> ktask_work \<Rightarrow> ktask_rlim
     \<Rightarrow> bool \<times> ktask_work \<times> ktask_rlim" where
  "ktask_node_migrate env pf_kthread old_kn kn ktask_node_i kw rl =
     (if \<not> env_numa env \<or> \<not> pf_kthread \<or> kn_nid kn = kn_nid old_kn
         \<or> env_online_nodes env = 1
      then (False, kw, rl)
      else
        let q = kw_queue_nid kw;
            rl1 = (if q \<noteq> NUMA_NO_NODE then node_cur_dec env q rl else rl);
            (new_queue_nid, rl2) =
              (if kn_nid kn \<noteq> NUMA_NO_NODE
               then (if node_cur_rd env rl1 q < node_max_rd env rl1 q
                     then (kn_nid kn, node_cur_inc env (kn_nid kn) (node_cmp_note q rl1))
                     else (NUMA_NO_NODE, node_cmp_note q rl1))
               else (NUMA_NO_NODE, rl1))
        in (True, \<lparr>kw_ktask_node_i = ktask_node_i, kw_queue_nid = new_queue_nid\<rparr>, rl2))"

section \<open>Reserving and releasing works\<close>

text \<open>
  The loop of \<^verbatim>\<open>ktask_init_works\<close>, run under \<^verbatim>\<open>ktask_rlim_lock\<close>. \<open>works\<close> is the
  caller's \<^verbatim>\<open>works_list\<close>; each iteration moves one record from the free list to its
  tail. \<^verbatim>\<open>i % nr_nodes\<close> traps when the node array is empty.
\<close>

function init_works_loop ::
  "ktask_env \<Rightarrow> ktask_node list \<Rightarrow> size_t \<Rightarrow> size_t \<Rightarrow> size_t \<Rightarrow> ktask_rlim
     \<Rightarrow> ktask_work list \<Rightarrow> error + (size_t \<times> ktask_rlim \<times> ktask_work list)" where
  "init_works_loop env nodes nr_works_check i nr_works rl works =
     (if i < nr_works_check then
        (if length nodes = 0 then Inl DivByZero
         else
           let ktask_node_i = unat i mod length nodes;
               nid = kn_nid (nodes ! ktask_node_i)
           in if ktask_rlim_cur rl = ktask_rlim_max rl then Inr (nr_works, rl, works)
              else
                let (queue_nid, rl1) =
                      (if nid \<noteq> NUMA_NO_NODE
                       then (if node_cur_rd env rl nid < node_max_rd env rl nid
                             then (nid, node_cur_inc env nid (node_cmp_note nid rl))
                             else (NUMA_NO_NODE, node_cmp_note nid rl))
                       else (NUMA_NO_NODE, rl));
                    kw = \<lparr>kw_ktask_node_i = ktask_node_i, kw_queue_nid = queue_nid\<rparr>
                in init_works_loop env nodes nr_works_check (i + 1) (nr_works + 1)
                     (rl1\<lparr>ktask_rlim_cur := ktask_rlim_cur rl1 + 1\<rparr>) (works @ [kw]))
      else Inr (nr_works, rl, works))"
  by pat_completeness auto
termination
  apply (relation "measure (\<lambda>(env, nodes, c, i, n, rl, ws). unat c - unat i)")
   apply simp
  apply simp
  apply unat_arith
  done

declare init_works_loop.simps [simp del]

text \<open>
  \<^verbatim>\<open>ktask_init_works(nodes, nr_nodes, kt, works_list)\<close> for a task with the given
  \<^verbatim>\<open>kt_total_size\<close> and control structure. Returns \<^verbatim>\<open>nr_works\<close>, the limits and the
  works list.
\<close>

definition ktask_init_works ::
  "ktask_env \<Rightarrow> ktask_node list \<Rightarrow> size_t \<Rightarrow> ktask_ctl \<Rightarrow> ktask_rlim
     \<Rightarrow> error + (size_t \<times> ktask_rlim \<times> ktask_work list)" where
  "ktask_init_works env nodes total_size ctl rl =
     (if \<not> env_wq env then Inr (1, rl, [])
      else
        let min_chunk_size = kc_min_chunk_size ctl;
            max_threads = (if kc_max_threads ctl = 0 then ktask_max_threads
                           else kc_max_threads ctl)
        in if min_chunk_size = 0 then Inl DivByZero
           else
             let nr_works_check =
                   min (min (DIV_ROUND_UP total_size min_chunk_size) (env_online_cpus env))
                       max_threads
             in init_works_loop env nodes nr_works_check 1 1 rl [])"

text \<open>\<^verbatim>\<open>ktask_fini_works\<close>: one pass over the works list.\<close>

fun ktask_fini_works :: "ktask_env \<Rightarrow> ktask_work list \<Rightarrow> ktask_rlim \<Rightarrow> ktask_rlim" where
  "ktask_fini_works env [] rl = rl"
| "ktask_fini_works env (work # works) rl =
     (let rl1 = (if kw_queue_nid work \<noteq> NUMA_NO_NODE
                 then node_cur_dec env (kw_queue_nid work) rl else rl)
      in ktask_fini_works env works (rl1\<lparr>ktask_rlim_cur := ktask_rlim_cur rl1 - 1\<rparr>))"

section \<open>Initial limits\<close>

text \<open>
  Modelled from the spec: \<^verbatim>\<open>mult_frac\<close> is not part of the sources at hand; the caps
  are "floor(cpus * 4 / 5)".
\<close>

definition mult_frac :: "nat \<Rightarrow> nat \<Rightarrow> nat \<Rightarrow> nat" where
  "mult_frac x numer denom = x * numer div denom"

definition KTASK_CPUFRAC_NUMER :: nat where
  "KTASK_CPUFRAC_NUMER = 4"

definition KTASK_CPUFRAC_DENOM :: nat where
  "KTASK_CPUFRAC_DENOM = 5"

text \<open>
  \<^verbatim>\<open>ktask_rlim_init\<close> on a machine with \<open>nr_cpus\<close> online cpus, \<open>node_cpus ! n\<close> of
  them on node \<open>n\<close>. \<open>None\<close> is the \<^verbatim>\<open>false\<close> return (one cpu only).
\<close>

definition ktask_rlim_init :: "nat \<Rightarrow> nat list \<Rightarrow> ktask_rlim option" where
  "ktask_rlim_init nr_cpus node_cpus =
     (if nr_cpus = 1 then None
      else Some \<lparr>ktask_rlim_cur = 0,
                 ktask_rlim_max = of_nat (mult_frac nr_cpus KTASK_CPUFRAC_NUMER KTASK_CPUFRAC_DENOM),
                 ktask_rlim_node_cur = map (\<lambda>_. 0) node_cpus,
                 ktask_rlim_node_max =
                   map (\<lambda>nr_node_cpus.
                          of_nat (mult_frac nr_node_cpus KTASK_CPUFRAC_NUMER KTASK_CPUFRAC_DENOM))
                       node_cpus,
                 rlim_oob = []\<rparr>)"

section \<open>The task and the worker loop\<close>

text \<open>\<^verbatim>\<open>struct ktask_task\<close>; \<^verbatim>\<open>kt_nr_nodes\<close> is the length of \<open>kt_nodes\<close>, the
  completion \<^verbatim>\<open>kt_ktask_done\<close> is a flag.\<close>

record ktask_task =
  kt_ctl :: ktask_ctl
  kt_total_size :: size_t
  kt_chunk_size :: size_t
  kt_nodes :: "ktask_node list"
  kt_nr_nodes_left :: size_t
  kt_nworks :: size_t
  kt_nworks_fini :: size_t
  kt_error :: int
  kt_ktask_done :: bool

text \<open>
  Modelled from the spec: \<^verbatim>\<open>prandom_u32_max\<close> is not part of the sources at hand; it
  "draws r in [0, nodes_with_work_left)". \<open>raw\<close> is the generator's output.
\<close>

definition prandom_u32_max :: "nat \<Rightarrow> nat \<Rightarrow> nat" where
  "prandom_u32_max raw ep_ro = (if ep_ro = 0 then 0 else raw mod ep_ro)"

text \<open>
  The \<^verbatim>\<open>for\<close> loop of \<^verbatim>\<open>ktask_thread\<close> that looks for the new node. The first argument
  is the part of the node array from index \<open>i\<close> on; the result is the value of \<open>i\<close>
  when the loop ends (\<^verbatim>\<open>kt_nr_nodes\<close> when it runs off the array).
\<close>

fun node_scan :: "ktask_node list \<Rightarrow> nat \<Rightarrow> nat \<Rightarrow> nat \<Rightarrow> nat" where
  "node_scan [] i remaining_nodes_seen new_idx = i"
| "node_scan (kn # rest) i remaining_nodes_seen new_idx =
     (if kn_task_size kn = 0 then node_scan rest (i + 1) remaining_nodes_seen new_idx
      else if remaining_nodes_seen \<ge> new_idx then i
      else node_scan rest (i + 1) (remaining_nodes_seen + 1) new_idx)"

text \<open>The node chosen by a worker that found its node empty: the random draw, then
  the scan.\<close>

definition pick_new_node :: "ktask_task \<Rightarrow> nat \<Rightarrow> nat" where
  "pick_new_node kt raw =
     node_scan (kt_nodes kt) 0 0 (prandom_u32_max raw (unat (kt_nr_nodes_left kt)))"

text \<open>
  A thread of the task is queued (not yet inside \<^verbatim>\<open>ktask_thread\<close>), or inside the
  processing callback on a chunk of node \<open>k\<close> (holding no lock), or has left
  \<^verbatim>\<open>ktask_thread\<close> for good. Worker 0 is the calling thread.
\<close>

datatype wstate = Queued | Processing nat | Finished

record worker =
  w_kw :: ktask_work
  w_kthread :: bool
  w_state :: wstate

text \<open>
  The state shared by all threads. \<open>sys_calls\<close> lists the invocations of the
  processing callback as (node index, start, end) in the order of the claims;
  \<open>sys_rets\<close> lists the callback's return values in the order in which the threads
  took \<^verbatim>\<open>kt_mutex\<close> again.
\<close>

record ktask_sys =
  sys_task :: ktask_task
  sys_rlim :: ktask_rlim
  sys_workers :: "worker list"
  sys_calls :: "(nat \<times> size_t \<times> size_t) list"
  sys_rets :: "int list"

text \<open>One scheduling decision: which runnable thread takes \<^verbatim>\<open>kt_mutex\<close> next, the
  random number it draws, and what its processing callback returned.\<close>

record choice =
  ch_worker :: nat
  ch_rand :: nat
  ch_ret :: int

text \<open>Lines 208-218 of \<^verbatim>\<open>ktask_thread\<close>: claim a chunk of node \<open>k\<close>, then unlock and
  call the processing callback.\<close>

definition claim_chunk :: "nat \<Rightarrow> nat \<Rightarrow> ktask_sys \<Rightarrow> ktask_sys" where
  "claim_chunk w k s =
     (let kt = sys_task s;
          kn = kt_nodes kt ! k;
          start = kn_start kn;
          sz = min (kt_chunk_size kt) (kn_task_size kn);
          endp = kc_iter_func (kt_ctl kt) start sz;
          kn1 = kn\<lparr>kn_start := endp, kn_task_size := kn_task_size kn - sz\<rparr>;
          kt1 = kt\<lparr>kt_nodes := (kt_nodes kt)[k := kn1],
                   kt_total_size := kt_total_size kt - sz,
                   kt_nr_nodes_left := (if kn_task_size kn1 = 0 then kt_nr_nodes_left kt - 1
                                        else kt_nr_nodes_left kt)\<rparr>
      in s\<lparr>sys_task := kt1,
           sys_workers := (sys_workers s)[w := (sys_workers s ! w)\<lparr>w_state := Processing k\<rparr>],
           sys_calls := sys_calls s @ [(k, start, endp)]\<rparr>)"

text \<open>Lines 234-240: count the thread as finished; the last one completes
  \<^verbatim>\<open>kt_ktask_done\<close>.\<close>

definition thread_exit :: "nat \<Rightarrow> ktask_sys \<Rightarrow> ktask_sys" where
  "thread_exit w s =
     (let kt = sys_task s;
          fini = kt_nworks_fini kt + 1;
          done = (fini = kt_nworks kt);
          kt1 = kt\<lparr>kt_nworks_fini := fini, kt_ktask_done := (kt_ktask_done kt \<or> done)\<rparr>
      in s\<lparr>sys_task := kt1,
           sys_workers := (sys_workers s)[w := (sys_workers s ! w)\<lparr>w_state := Finished\<rparr>]\<rparr>)"

text \<open>
  The \<^verbatim>\<open>while\<close> loop of \<^verbatim>\<open>ktask_thread\<close> from its head, with \<^verbatim>\<open>kt_mutex\<close> held and
  \<^verbatim>\<open>kn = &kt_nodes[k]\<close>, up to the next unlock: the thread migrates (it is queued
  again), or claims a chunk, or leaves the loop.
\<close>

definition thread_loop :: "ktask_env \<Rightarrow> choice \<Rightarrow> nat \<Rightarrow> nat \<Rightarrow> ktask_sys \<Rightarrow> error + ktask_sys" where
  "thread_loop env ch w k s =
     (let kt = sys_task s; nodes = kt_nodes kt
      in if kt_total_size kt > 0 \<and> kt_error kt = KTASK_RETURN_SUCCESS then
           (if k \<ge> length nodes then Inl (BadNodeIndex k)
            else if kn_task_size (nodes ! k) = 0 then
              (let i = pick_new_node kt (ch_rand ch)
               in if i \<ge> length nodes then Inl (BadNodeIndex i)
                  else
                    let wk = sys_workers s ! w;
                        (migrated, kw, rl) =
                          ktask_node_migrate env (w_kthread wk) (nodes ! k) (nodes ! i) i
                            (w_kw wk) (sys_rlim s)
                    in if migrated
                       then Inr (s\<lparr>sys_rlim := rl,
                                   sys_workers := (sys_workers s)[w := wk\<lparr>w_kw := kw, w_state := Queued\<rparr>]\<rparr>)
                       else Inr (claim_chunk w i s))
            else Inr (claim_chunk w k s))
         else Inr (thread_exit w s))"

text \<open>Lines 224-228: back from the callback with \<open>ret\<close>, save the first error.\<close>

definition latch_error :: "int \<Rightarrow> ktask_sys \<Rightarrow> ktask_sys" where
  "latch_error ret s =
     (let kt = sys_task s
      in s\<lparr>sys_task := (if kt_error kt = KTASK_RETURN_SUCCESS \<and> ret \<noteq> kt_error kt
                        then kt\<lparr>kt_error := ret\<rparr> else kt),
           sys_rets := sys_rets s @ [ret]\<rparr>)"

text \<open>One tenure of \<^verbatim>\<open>kt_mutex\<close> by thread \<open>w\<close>.\<close>

definition ktask_thread_step :: "ktask_env \<Rightarrow> choice \<Rightarrow> nat \<Rightarrow> ktask_sys \<Rightarrow> error + ktask_sys" where
  "ktask_thread_step env ch w s =
     (case w_state (sys_workers s ! w) of
        Queued \<Rightarrow> thread_loop env ch w (kw_ktask_node_i (w_kw (sys_workers s ! w))) s
      | Processing k \<Rightarrow> thread_loop env ch w k (latch_error (ch_ret ch) s)
      | Finished \<Rightarrow> Inr s)"

definition runnable :: "ktask_sys \<Rightarrow> nat list" where
  "runnable s = filter (\<lambda>w. w_state (sys_workers s ! w) \<noteq> Finished) [0..<length (sys_workers s)]"

text \<open>The scheduler lets one of the runnable threads go; with none left nothing
  happens any more.\<close>

definition sched_step :: "ktask_env \<Rightarrow> choice \<Rightarrow> ktask_sys \<Rightarrow> error + ktask_sys" where
  "sched_step env ch s =
     (case runnable s of
        [] \<Rightarrow> Inr s
      | w # ws \<Rightarrow> ktask_thread_step env ch ((w # ws) ! (ch_worker ch mod length (w # ws))) s)"

fun exec :: "ktask_env \<Rightarrow> choice list \<Rightarrow> ktask_sys \<Rightarrow> error + ktask_sys" where
  "exec env [] s = Inr s"
| "exec env (ch # chs) s =
     (case sched_step env ch s of Inl e \<Rightarrow> Inl e | Inr s1 \<Rightarrow> exec env chs s1)"

section \<open>The entry points\<close>

text \<open>The first loop of \<^verbatim>\<open>ktask_run_numa\<close>, on the pair
  (\<^verbatim>\<open>kt_total_size\<close>, \<^verbatim>\<open>kt_nr_nodes_left\<close>).\<close>

fun sum_sizes :: "ktask_node list \<Rightarrow> size_t \<times> size_t \<Rightarrow> size_t \<times> size_t" where
  "sum_sizes [] acc = acc"
| "sum_sizes (kn # rest) (total_size, nodes_left) =
     sum_sizes rest (total_size + kn_task_size kn, if kn_task_size kn = 0 then nodes_left - 1 else nodes_left)"

text \<open>The system when the calling thread enters \<^verbatim>\<open>ktask_thread\<close>: the works of the
  list are queued, the caller's own work starts at node 0.\<close>

definition initial_sys ::
  "ktask_env \<Rightarrow> ktask_node list \<Rightarrow> ktask_ctl \<Rightarrow> size_t \<Rightarrow> size_t \<Rightarrow> size_t \<Rightarrow> size_t
     \<Rightarrow> ktask_rlim \<Rightarrow> ktask_work list \<Rightarrow> int \<Rightarrow> ktask_sys" where
  "initial_sys env nodes ctl total_size nodes_left nworks chunk rl works nid0 =
     \<lparr>sys_task = \<lparr>kt_ctl = ctl, kt_total_size = total_size, kt_chunk_size = chunk,
                  kt_nodes = nodes, kt_nr_nodes_left = nodes_left, kt_nworks = nworks,
                  kt_nworks_fini = 0, kt_error = KTASK_RETURN_SUCCESS,
                  kt_ktask_done = False\<rparr>,
      sys_rlim = rl,
      sys_workers =
        \<lparr>w_kw = \<lparr>kw_ktask_node_i = 0, kw_queue_nid = nid0\<rparr>,
         w_kthread = env_caller_kthread env, w_state = Queued\<rparr>
        # map (\<lambda>kw. \<lparr>w_kw = kw, w_kthread = True, w_state = Queued\<rparr>) works,
      sys_calls = [], sys_rets = []\<rparr>"

record ktask_result =
  res_status :: int
  res_rlim :: ktask_rlim
  res_calls :: "(nat \<times> size_t \<times> size_t) list"
  res_rets :: "int list"

text \<open>
  Lines 401-407 of \<^verbatim>\<open>ktask_run_numa\<close>: once \<^verbatim>\<open>kt_ktask_done\<close> is completed, release
  the works of the list (the caller's own work is not on it) and return \<^verbatim>\<open>kt_error\<close>.
\<close>

definition wait_and_finish :: "ktask_env \<Rightarrow> ktask_sys \<Rightarrow> error + ktask_result" where
  "wait_and_finish env s =
     (if \<not> kt_ktask_done (sys_task s) then Inl StillRunning
      else Inr \<lparr>res_status = kt_error (sys_task s),
                res_rlim = ktask_fini_works env (map w_kw (tl (sys_workers s))) (sys_rlim s),
                res_calls = sys_calls s,
                res_rets = sys_rets s\<rparr>)"

text \<open>
  \<^verbatim>\<open>ktask_run_numa(nodes, nr_nodes, ctl)\<close> under the schedule \<open>sched\<close>. The caller
  sleeps in \<^verbatim>\<open>wait_for_completion\<close> until \<^verbatim>\<open>kt_ktask_done\<close> is completed; a schedule
  that ends before that gives \<open>StillRunning\<close>.
\<close>

definition ktask_run_numa ::
  "ktask_env \<Rightarrow> choice list \<Rightarrow> ktask_node list \<Rightarrow> ktask_ctl \<Rightarrow> ktask_rlim
     \<Rightarrow> error + ktask_result" where
  "ktask_run_numa env sched nodes ctl rl =
     (let (total_size, nodes_left) = sum_sizes nodes (0, of_nat (length nodes))
      in if total_size = 0
         then Inr \<lparr>res_status = KTASK_RETURN_SUCCESS, res_rlim = rl, res_calls = [],
                   res_rets = []\<rparr>
         else
           case ktask_init_works env nodes total_size ctl rl of
             Inl e \<Rightarrow> Inl e
           | Inr (nworks, rl1, works) \<Rightarrow>
               (case ktask_chunk_size total_size (kc_min_chunk_size ctl) nworks of
                  Inl e \<Rightarrow> Inl e
                | Inr chunk \<Rightarrow>
                    (case nodes of
                       [] \<Rightarrow> Inl (BadNodeIndex 0)
                     | kn0 # _ \<Rightarrow>
                         (case exec env sched
                                 (initial_sys env nodes ctl total_size nodes_left nworks chunk rl1 works
                                    (kn_nid kn0)) of
                            Inl e \<Rightarrow> Inl e
                          | Inr s \<Rightarrow> wait_and_finish env s))))"

text \<open>\<^verbatim>\<open>ktask_run(start, task_size, ctl)\<close>.\<close>

definition ktask_run ::
  "ktask_env \<Rightarrow> choice list \<Rightarrow> size_t \<Rightarrow> size_t \<Rightarrow> ktask_ctl \<Rightarrow> ktask_rlim
     \<Rightarrow> error + ktask_result" where
  "ktask_run env sched start task_size ctl rl =
     ktask_run_numa env sched
       [\<lparr>kn_start = start, kn_task_size = task_size, kn_nid = env_node_id env\<rparr>] ctl rl"

section \<open>Notions used in the statements\<close>

text \<open>The indices of the node descriptors with work left, in array order.\<close>

definition work_left_indices :: "ktask_node list \<Rightarrow> nat list" where
  "work_left_indices nodes = filter (\<lambda>i. kn_task_size (nodes ! i) \<noteq> 0) [0..<length nodes]"

text \<open>A machine with five cpus on two nodes, three on node 0 and two on node 1, and
  its limits after \<^verbatim>\<open>ktask_rlim_init\<close>: 4 in total, 2 and 1 per node.\<close>

definition five_cpu_env :: ktask_env where
  "five_cpu_env = \<lparr>env_numa = True, env_online_nodes = 2, env_online_cpus = 5,
     env_wq = True, env_node_id = 0, env_caller_kthread = False,
     env_stray_cur = (\<lambda>_. 0), env_stray_max = (\<lambda>_. 0)\<rparr>"

definition five_cpu_rlim :: ktask_rlim where
  "five_cpu_rlim = \<lparr>ktask_rlim_cur = 0, ktask_rlim_max = 4, ktask_rlim_node_cur = [0, 0],
     ktask_rlim_node_max = [2, 1], rlim_oob = []\<rparr>"

text \<open>
  The number of threads the specification asks for: \<open>ceil(total_remaining / min_grain)\<close>,
  clamped to the online cpus and to \<open>max_threads\<close>, where 0 stands for the default 4.
\<close>

definition nr_wanted :: "nat \<Rightarrow> nat \<Rightarrow> nat \<Rightarrow> nat \<Rightarrow> nat" where
  "nr_wanted total_remaining min_grain online_cpus max_threads =
     min (min ((total_remaining + min_grain - 1) div min_grain) online_cpus)
         (if max_threads = 0 then 4 else max_threads)"

text \<open>The work left on all nodes, as a natural number (it may exceed what
  \<^verbatim>\<open>kt_total_size\<close> can hold).\<close>

definition work_sum :: "ktask_node list \<Rightarrow> nat" where
  "work_sum nodes = sum_list (map (\<lambda>kn. unat (kn_task_size kn)) nodes)"

text \<open>A thread points into the node array: a queued one with \<^verbatim>\<open>kw_ktask_node_i\<close>, a
  processing one with its local \<^verbatim>\<open>kn\<close>.\<close>

definition worker_ok :: "ktask_node list \<Rightarrow> worker \<Rightarrow> bool" where
  "worker_ok nodes wk =
     (case w_state wk of
        Queued \<Rightarrow> kw_ktask_node_i (w_kw wk) < length nodes
      | Processing k \<Rightarrow> k < length nodes
      | Finished \<Rightarrow> True)"

text \<open>
  The invariant of the task under \<^verbatim>\<open>kt_mutex\<close>: \<^verbatim>\<open>kt_nr_nodes_left\<close> counts the
  descriptors with work left, \<^verbatim>\<open>kt_total_size\<close> is the sum of the remaining sizes
  (modulo \<open>2^64\<close>), the chunk size is not zero, and every thread points into the array.
\<close>

definition core_ok :: "ktask_sys \<Rightarrow> bool" where
  "core_ok s =
     (unat (kt_nr_nodes_left (sys_task s)) = length (work_left_indices (kt_nodes (sys_task s)))
      \<and> kt_total_size (sys_task s) = of_nat (work_sum (kt_nodes (sys_task s)))
      \<and> kt_chunk_size (sys_task s) \<noteq> 0
      \<and> list_all (worker_ok (kt_nodes (sys_task s))) (sys_workers s))"

text \<open>The completion accounting: \<^verbatim>\<open>kt_nworks\<close> threads exist, \<^verbatim>\<open>kt_nworks_fini\<close> of
  them have finished, and \<^verbatim>\<open>kt_ktask_done\<close> is completed exactly when all have.\<close>

definition fini_ok :: "ktask_sys \<Rightarrow> bool" where
  "fini_ok s =
     (unat (kt_nworks (sys_task s)) = length (sys_workers s)
      \<and> unat (kt_nworks_fini (sys_task s))
          = length (filter (\<lambda>wk. w_state wk = Finished) (sys_workers s))
      \<and> (kt_ktask_done (sys_task s) \<longleftrightarrow> runnable s = []))"



text \<open>The first value of a list of return values that is not success.\<close>

definition first_error :: "int list \<Rightarrow> int" where
  "first_error rets =
     (case filter (\<lambda>r. r \<noteq> KTASK_RETURN_SUCCESS) rets of
        [] \<Rightarrow> KTASK_RETURN_SUCCESS
      | r # _ \<Rightarrow> r)"

text \<open>The number of threads inside the processing callback.\<close>

fun is_processing :: "wstate \<Rightarrow> bool" where
  "is_processing (Processing k) = True"
| "is_processing Queued = False"
| "is_processing Finished = False"

definition in_flight :: "worker list \<Rightarrow> nat" where
  "in_flight ws = length (filter (\<lambda>wk. is_processing (w_state wk)) ws)"

text \<open>The error slot holds the first error among the return values seen so far, and
  every invocation of the callback has either returned or is still running.\<close>

definition err_ok :: "ktask_sys \<Rightarrow> bool" where
  "err_ok s =
     (kt_error (sys_task s) = first_error (sys_rets s)
      \<and> length (sys_calls s) = length (sys_rets s) + in_flight (sys_workers s))"

text \<open>
  A run on the five-cpu machine: 1024 units on one node, a minimum chunk size of 256 and
  two threads. \<open>two_thread_start\<close> is the state in which both threads are queued (one
  work is reserved on node 0, the chunk size is 256); under \<open>failing_sched\<close> the caller
  claims a chunk, the worker claims a chunk, the caller comes back with the error 7, and
  the worker comes back with success.
\<close>

definition one_node :: "ktask_node list" where
  "one_node = [\<lparr>kn_start = 0, kn_task_size = 1024, kn_nid = 0\<rparr>]"

definition two_thread_ctl :: ktask_ctl where
  "two_thread_ctl =
     \<lparr>kc_iter_func = ktask_iter_range, kc_min_chunk_size = 256, kc_max_threads = 2\<rparr>"

definition two_thread_start :: ktask_sys where
  "two_thread_start =
     initial_sys five_cpu_env one_node two_thread_ctl 1024 1 2 256
       (five_cpu_rlim\<lparr>ktask_rlim_cur := 1, ktask_rlim_node_cur := [1, 0]\<rparr>)
       [\<lparr>kw_ktask_node_i = 0, kw_queue_nid = 0\<rparr>] 0"

definition failing_sched :: "choice list" where
  "failing_sched =
     [\<lparr>ch_worker = 0, ch_rand = 0, ch_ret = 0\<rparr>, \<lparr>ch_worker = 1, ch_rand = 0, ch_ret = 0\<rparr>,
      \<lparr>ch_worker = 0, ch_rand = 0, ch_ret = 7\<rparr>, \<lparr>ch_worker = 0, ch_rand = 0, ch_ret = 0\<rparr>]"

text \<open>The addresses of an invocation of the callback and of a node descriptor, as
  half-open intervals.\<close>

definition call_range :: "nat \<times> size_t \<times> size_t \<Rightarrow> size_t set" where
  "call_range c = {fst (snd c)..<snd (snd c)}"

definition node_range :: "ktask_node \<Rightarrow> size_t set" where
  "node_range kn = {kn_start kn..<kn_start kn + kn_task_size kn}"

text \<open>The addresses covered by the invocations that were claimed from node \<open>k\<close>.\<close>

definition covered :: "nat \<Rightarrow> (nat \<times> size_t \<times> size_t) list \<Rightarrow> size_t set" where
  "covered k calls = (\<Union>c \<in> {c \<in> set calls. fst c = k}. call_range c)"

text \<open>No two invocations claimed from the same node overlap.\<close>

definition node_disjoint :: "(nat \<times> size_t \<times> size_t) list \<Rightarrow> bool" where
  "node_disjoint calls =
     (\<forall>i < length calls. \<forall>j < length calls.
        i \<noteq> j \<and> fst (calls ! i) = fst (calls ! j)
        \<longrightarrow> call_range (calls ! i) \<inter> call_range (calls ! j) = {})"

text \<open>No two invocations overlap at all.\<close>

definition all_disjoint :: "(nat \<times> size_t \<times> size_t) list \<Rightarrow> bool" where
  "all_disjoint calls =
     (\<forall>i < length calls. \<forall>j < length calls.
        i \<noteq> j \<longrightarrow> call_range (calls ! i) \<inter> call_range (calls ! j) = {})"

text \<open>
  The invariants behind coverage, relative to the node array \<open>nodes0\<close> the call
  started with. \<open>size_ok\<close>: \<^verbatim>\<open>kt_total_size\<close> is the sum of the remaining sizes, which
  never grows. \<open>range_ok\<close>: with the default iterator, each node's cursor has moved
  forward by what was taken from its size, and the invocations claimed from it cover
  exactly the addresses between its first cursor and its cursor now. \<open>stop_ok\<close>: a
  thread leaves the loop only when no work is left or an error is latched.
\<close>

definition size_ok :: "ktask_node list \<Rightarrow> ktask_sys \<Rightarrow> bool" where
  "size_ok nodes0 s =
     (length (kt_nodes (sys_task s)) = length nodes0
      \<and> kt_total_size (sys_task s) = of_nat (work_sum (kt_nodes (sys_task s)))
      \<and> work_sum (kt_nodes (sys_task s)) \<le> work_sum nodes0)"

definition range_ok :: "ktask_node list \<Rightarrow> ktask_sys \<Rightarrow> bool" where
  "range_ok nodes0 s =
     ((\<forall>c \<in> set (sys_calls s). fst c < length nodes0)
      \<and> node_disjoint (sys_calls s)
      \<and> (\<forall>k < length nodes0.
            kn_start (nodes0 ! k) \<le> kn_start (kt_nodes (sys_task s) ! k)
          \<and> unat (kn_start (kt_nodes (sys_task s) ! k))
              + unat (kn_task_size (kt_nodes (sys_task s) ! k))
              = unat (kn_start (nodes0 ! k)) + unat (kn_task_size (nodes0 ! k))
          \<and> covered k (sys_calls s)
              = {kn_start (nodes0 ! k)..<kn_start (kt_nodes (sys_task s) ! k)}))"

definition stop_ok :: "ktask_sys \<Rightarrow> bool" where
  "stop_ok s =
     (sys_workers s \<noteq> []
      \<and> ((\<exists>wk \<in> set (sys_workers s). w_state wk = Finished)
           \<longrightarrow> kt_total_size (sys_task s) = 0 \<or> kt_error (sys_task s) \<noteq> KTASK_RETURN_SUCCESS))"

text \<open>
  A run on the five-cpu machine over two nodes of 4096 units each, with a minimum chunk
  size of 2048 and three threads; under \<open>caller_first_sched\<close> the scheduler lets the first
  runnable thread go seven times, and the callback always succeeds.
\<close>

definition two_nodes :: "ktask_node list" where
  "two_nodes = [\<lparr>kn_start = 0, kn_task_size = 4096, kn_nid = 0\<rparr>,
                \<lparr>kn_start = 65536, kn_task_size = 4096, kn_nid = 1\<rparr>]"

definition three_thread_ctl :: ktask_ctl where
  "three_thread_ctl =
     \<lparr>kc_iter_func = ktask_iter_range, kc_min_chunk_size = 2048, kc_max_threads = 3\<rparr>"

definition caller_first_sched :: "choice list" where
  "caller_first_sched = replicate 7 \<lparr>ch_worker = 0, ch_rand = 0, ch_ret = 0\<rparr>"

text \<open>Two nodes whose sizes add up to \<open>2^64\<close>.\<close>

definition huge_nodes :: "ktask_node list" where
  "huge_nodes = [\<lparr>kn_start = 0, kn_task_size = 2 ^ 63, kn_nid = 0\<rparr>,
                 \<lparr>kn_start = 2 ^ 63, kn_task_size = 2 ^ 63, kn_nid = 1\<rparr>]"

text \<open>
  Two more schedules on the five-cpu machine. Under \<open>migrating_sched\<close> (three threads
  on \<open>two_nodes\<close>) the caller and the worker bound to node 0 each claim one half of
  node 0, then that worker comes back and has to move to node 1. Under
  \<open>worker_only_sched\<close> (two threads on \<open>any_node_nodes\<close>, whose second descriptor
  has no node) the worker claims the four chunks of the second descriptor and then has to
  move to the first.
\<close>

definition migrating_sched :: "choice list" where
  "migrating_sched =
     [\<lparr>ch_worker = 0, ch_rand = 0, ch_ret = 0\<rparr>, \<lparr>ch_worker = 2, ch_rand = 0, ch_ret = 0\<rparr>,
      \<lparr>ch_worker = 2, ch_rand = 0, ch_ret = 0\<rparr>]"

definition any_node_nodes :: "ktask_node list" where
  "any_node_nodes = [\<lparr>kn_start = 0, kn_task_size = 4096, kn_nid = 0\<rparr>,
                     \<lparr>kn_start = 65536, kn_task_size = 4096, kn_nid = NUMA_NO_NODE\<rparr>]"

definition worker_only_sched :: "choice list" where
  "worker_only_sched = replicate 5 \<lparr>ch_worker = 1, ch_rand = 0, ch_ret = 0\<rparr>"



section \<open>The chunker: proofs\<close>

lemma unat_rounddown: "unat (rounddown x y) = unat x - unat x mod unat y"
proof -
  have "x mod y \<le> x" by (simp add: word_le_nat_alt unat_mod_distrib)
  then have "unat (x - x mod y) = unat x - unat (x mod y)" by (rule unat_sub)
  then show ?thesis by (simp add: rounddown_def unat_mod_distrib)
qed

lemma unat_rounddown_mult: "unat (rounddown x y) = unat x div unat y * unat y"
  by (simp add: unat_rounddown minus_mod_eq_div_mult)

lemma unat_max: "unat (max (a::size_t) b) = max (unat a) (unat b)"
  by (simp add: max_def word_le_nat_alt)

lemma unat_shift2: "unat (drop_bit KTASK_LOAD_BAL_SHIFT (x::size_t)) = unat x div 2 ^ 2"
  by (simp add: KTASK_LOAD_BAL_SHIFT_def drop_bit_eq_div unat_div_distrib)

lemma chunk_size_unat:
  assumes "min_grain \<noteq> 0" "workers \<noteq> 0"
  shows "\<exists>sz. ktask_chunk_size total_size min_grain workers = Inr sz \<and>
           unat sz = chunk_size_spec (unat total_size) (unat min_grain) (unat workers)"
proof (cases "workers = 1")
  case True
  then show ?thesis by (simp add: ktask_chunk_size_def chunk_size_spec_def)
next
  case False
  then have w1: "unat workers \<noteq> 1" by unat_arith
  show ?thesis using assms False w1
    by (simp add: ktask_chunk_size_def chunk_size_spec_def Let_def unat_max
        unat_rounddown_mult unat_shift2 unat_div_distrib word_less_nat_alt)
qed

text \<open>
  C4. On its domain (a minimum grain and a worker count that are not zero; zero traps in
  a division) the chunker computes the reference algorithm of the specification: the
  total for one worker, else \<open>max(candidate', min_grain)\<close> with
  \<open>candidate = (total / workers) >> 2\<close> rounded down to a multiple of the minimum
  grain when it exceeds it. For a total of 1024, a grain of 256 and 4 workers the result
  is 256.
\<close>

theorem ktask_chunk_size_refines_spec:
  "(min_grain \<noteq> 0 \<and> workers \<noteq> 0 \<longrightarrow>
      (\<exists>sz. ktask_chunk_size total_size min_grain workers = Inr sz \<and>
         unat sz = chunk_size_spec (unat total_size) (unat min_grain) (unat workers)))
   \<and> ktask_chunk_size 1024 256 4 = Inr 256"
proof
  show "min_grain \<noteq> 0 \<and> workers \<noteq> 0 \<longrightarrow>
      (\<exists>sz. ktask_chunk_size total_size min_grain workers = Inr sz \<and>
         unat sz = chunk_size_spec (unat total_size) (unat min_grain) (unat workers))"
    using chunk_size_unat by blast
  show "ktask_chunk_size 1024 256 4 = Inr 256"
    by (simp add: ktask_chunk_size_def KTASK_LOAD_BAL_SHIFT_def drop_bit_eq_div)
qed

theorem ktask_chunk_size_refines_spec_witness:
  "(64::size_t) \<noteq> 0 \<and> (4::size_t) \<noteq> 0 \<and>
   (\<exists>sz. ktask_chunk_size 100000 64 4 = Inr sz \<and> unat sz = chunk_size_spec 100000 64 4)"
  using ktask_chunk_size_refines_spec [of 64 4 100000] by simp

text \<open>
  C3 fails for a single worker: the chunker then returns the total whatever the minimum
  grain is. A task of 10 units with a grain of 64 gets the chunk size 10, below the grain.
\<close>

theorem ktask_chunk_size_contract_counterexample:
  "ktask_chunk_size 10 64 1 = Inr 10 \<and> \<not> (64::size_t) \<le> 10"
  by (simp add: ktask_chunk_size_def)

text \<open>
  C3, amended. For a minimum grain and a worker count of at least 1: with one worker the
  chunk size is the total (so it is at most the total); with two or more workers it is at
  least the minimum grain, and a multiple of the minimum grain whenever it exceeds it.
\<close>

theorem ktask_chunk_size_contract:
  assumes "1 \<le> min_grain" and "1 \<le> workers"
  shows "\<exists>sz. ktask_chunk_size total_size min_grain workers = Inr sz \<and>
           (workers = 1 \<longrightarrow> sz = total_size \<and> sz \<le> total_size) \<and>
           (workers \<noteq> 1 \<longrightarrow>
              min_grain \<le> sz \<and> (min_grain < sz \<longrightarrow> unat min_grain dvd unat sz))"
proof (cases "workers = 1")
  case True
  then show ?thesis by (simp add: ktask_chunk_size_def)
next
  case False
  from assms have nz: "min_grain \<noteq> 0" "workers \<noteq> 0" by auto
  let ?c = "drop_bit KTASK_LOAD_BAL_SHIFT (total_size div workers)"
  show ?thesis
  proof (cases "min_grain < ?c")
    case True
    then have r: "ktask_chunk_size total_size min_grain workers
                  = Inr (max (rounddown ?c min_grain) min_grain)"
      using False nz by (simp add: ktask_chunk_size_def Let_def)
    have "unat min_grain dvd unat (rounddown ?c min_grain)"
      by (simp add: unat_rounddown_mult)
    then have "min_grain < max (rounddown ?c min_grain) min_grain \<longrightarrow>
               unat min_grain dvd unat (max (rounddown ?c min_grain) min_grain)"
      by (simp add: max_def)
    then show ?thesis using r False by simp
  next
    case False
    then have r: "ktask_chunk_size total_size min_grain workers = Inr min_grain"
      using \<open>workers \<noteq> 1\<close> nz by (simp add: ktask_chunk_size_def Let_def max_def)
    then show ?thesis using \<open>workers \<noteq> 1\<close> by simp
  qed
qed

theorem ktask_chunk_size_contract_witness:
  "(1::size_t) \<le> 64 \<and> (1::size_t) \<le> 4 \<and>
   (\<exists>sz. ktask_chunk_size 100000 64 4 = Inr sz \<and>
      ((4::size_t) = 1 \<longrightarrow> sz = 100000 \<and> sz \<le> 100000) \<and>
      ((4::size_t) \<noteq> 1 \<longrightarrow> 64 \<le> sz \<and> (64 < sz \<longrightarrow> unat (64::size_t) dvd unat sz)))"
  using ktask_chunk_size_contract [of 64 4 100000] by simp

section \<open>Choosing a new node: proofs\<close>

lemma work_left_indices_Cons:
  "work_left_indices (kn # rest) =
     (if kn_task_size kn = 0 then map Suc (work_left_indices rest)
      else 0 # map Suc (work_left_indices rest))"
proof -
  have "[0..<length (kn # rest)] = 0 # map Suc [0..<length rest]"
    by (simp add: upt_conv_Cons map_Suc_upt del: upt_Suc)
  then show ?thesis
    by (simp add: work_left_indices_def filter_map comp_def del: upt_Suc)
qed



section \<open>The resource limits under migration\<close>

lemma five_cpu_rlim_init: "ktask_rlim_init 5 [3, 2] = Some five_cpu_rlim"
  by (simp add: ktask_rlim_init_def five_cpu_rlim_def mult_frac_def KTASK_CPUFRAC_NUMER_def
      KTASK_CPUFRAC_DENOM_def)

text \<open>
  C1 does not hold of the code. On the five-cpu machine, a task on two nodes with three
  threads reserves one work on node 1 (filling its cap of 1) and one on node 0. When the
  work bound to node 0 migrates to node 1, \<^verbatim>\<open>ktask_node_migrate\<close> compares the counter
  and the cap of node 0, the old binding, and increments the counter of node 1 to 2,
  above its cap of 1. The theorem shows the reservation, the call of
  \<^verbatim>\<open>ktask_node_migrate\<close> by itself, and the limits after three lock tenures of the run.
\<close>

theorem migrate_exceeds_node_cap:
  "ktask_init_works five_cpu_env two_nodes 8192 three_thread_ctl five_cpu_rlim
   = Inr (3, five_cpu_rlim\<lparr>ktask_rlim_cur := 2, ktask_rlim_node_cur := [1, 1]\<rparr>,
          [\<lparr>kw_ktask_node_i = 1, kw_queue_nid = 1\<rparr>, \<lparr>kw_ktask_node_i = 0, kw_queue_nid = 0\<rparr>])
   \<and> ktask_node_migrate five_cpu_env True
       \<lparr>kn_start = 4096, kn_task_size = 0, kn_nid = 0\<rparr>
       \<lparr>kn_start = 65536, kn_task_size = 4096, kn_nid = 1\<rparr> 1
       \<lparr>kw_ktask_node_i = 0, kw_queue_nid = 0\<rparr>
       (five_cpu_rlim\<lparr>ktask_rlim_cur := 2, ktask_rlim_node_cur := [1, 1]\<rparr>)
   = (True, \<lparr>kw_ktask_node_i = 1, kw_queue_nid = 1\<rparr>,
      five_cpu_rlim\<lparr>ktask_rlim_cur := 2, ktask_rlim_node_cur := [0, 2]\<rparr>)
   \<and> map_sum id sys_rlim
       (exec five_cpu_env migrating_sched
          (initial_sys five_cpu_env two_nodes three_thread_ctl 8192 2 3 2048
             (five_cpu_rlim\<lparr>ktask_rlim_cur := 2, ktask_rlim_node_cur := [1, 1]\<rparr>)
             [\<lparr>kw_ktask_node_i = 1, kw_queue_nid = 1\<rparr>, \<lparr>kw_ktask_node_i = 0, kw_queue_nid = 0\<rparr>] 0))
   = Inr (five_cpu_rlim\<lparr>ktask_rlim_cur := 2, ktask_rlim_node_cur := [0, 2]\<rparr>)
   \<and> ktask_rlim_node_max five_cpu_rlim = [2, 1]"
  by code_simp

theorem migrate_exceeds_node_cap_witness:
  "ktask_rlim_node_max five_cpu_rlim ! 1
   < ktask_rlim_node_cur (snd (snd (ktask_node_migrate five_cpu_env True
       \<lparr>kn_start = 4096, kn_task_size = 0, kn_nid = 0\<rparr>
       \<lparr>kn_start = 65536, kn_task_size = 4096, kn_nid = 1\<rparr> 1
       \<lparr>kw_ktask_node_i = 0, kw_queue_nid = 0\<rparr>
       (five_cpu_rlim\<lparr>ktask_rlim_cur := 2, ktask_rlim_node_cur := [1, 1]\<rparr>)))) ! 1"
  using migrate_exceeds_node_cap by simp

text \<open>
  C10 does not hold of the code. A work reserved for a descriptor without a node is bound
  to \<^verbatim>\<open>NUMA_NO_NODE\<close>; when it migrates to a descriptor with a node, the cap check
  reads both arrays at \<^verbatim>\<open>kw_queue_nid\<close>, which is -1. The theorem shows the
  reservation, the call of \<^verbatim>\<open>ktask_node_migrate\<close> by itself, and the limits after five
  lock tenures of the run, with the two reads recorded in \<open>rlim_oob\<close>.
\<close>

theorem migrate_reads_index_minus_one:
  "ktask_init_works five_cpu_env any_node_nodes 8192 two_thread_ctl five_cpu_rlim
   = Inr (2, five_cpu_rlim\<lparr>ktask_rlim_cur := 1\<rparr>,
          [\<lparr>kw_ktask_node_i = 1, kw_queue_nid = NUMA_NO_NODE\<rparr>])
   \<and> ktask_node_migrate five_cpu_env True
       \<lparr>kn_start = 69632, kn_task_size = 0, kn_nid = NUMA_NO_NODE\<rparr>
       \<lparr>kn_start = 0, kn_task_size = 4096, kn_nid = 0\<rparr> 0
       \<lparr>kw_ktask_node_i = 1, kw_queue_nid = NUMA_NO_NODE\<rparr>
       (five_cpu_rlim\<lparr>ktask_rlim_cur := 1\<rparr>)
   = (True, \<lparr>kw_ktask_node_i = 0, kw_queue_nid = NUMA_NO_NODE\<rparr>,
      five_cpu_rlim\<lparr>ktask_rlim_cur := 1, rlim_oob := [- 1, - 1]\<rparr>)
   \<and> map_sum id sys_rlim
       (exec five_cpu_env worker_only_sched
          (initial_sys five_cpu_env any_node_nodes two_thread_ctl 8192 2 2 1024
             (five_cpu_rlim\<lparr>ktask_rlim_cur := 1\<rparr>)
             [\<lparr>kw_ktask_node_i = 1, kw_queue_nid = NUMA_NO_NODE\<rparr>] 0))
   = Inr (five_cpu_rlim\<lparr>ktask_rlim_cur := 1, rlim_oob := [- 1, - 1]\<rparr>)"
  by code_simp

theorem migrate_reads_index_minus_one_witness:
  "rlim_oob (snd (snd (ktask_node_migrate five_cpu_env True
       \<lparr>kn_start = 69632, kn_task_size = 0, kn_nid = NUMA_NO_NODE\<rparr>
       \<lparr>kn_start = 0, kn_task_size = 4096, kn_nid = 0\<rparr> 0
       \<lparr>kw_ktask_node_i = 1, kw_queue_nid = NUMA_NO_NODE\<rparr>
       (five_cpu_rlim\<lparr>ktask_rlim_cur := 1\<rparr>)))) = [NUMA_NO_NODE, NUMA_NO_NODE]"
  using migrate_reads_index_minus_one by (simp add: NUMA_NO_NODE_def)

section \<open>The entry point: an empty task\<close>

lemma sum_sizes_zero:
  "\<forall>kn \<in> set nodes. kn_task_size kn = 0 \<Longrightarrow> fst (sum_sizes nodes (t, l)) = t"
  by (induction nodes arbitrary: t l) auto

text \<open>
  C8. When the remaining sizes of the node array sum to 0 (the empty array included),
  \<^verbatim>\<open>ktask_run_numa\<close> returns success at once, whatever the control structure and
  the schedule: no invocation of the callback, no work reserved, the limits unchanged.
\<close>

theorem ktask_run_numa_nothing_to_do:
  assumes "sum_list (map (\<lambda>kn. unat (kn_task_size kn)) nodes) = 0"
  shows "ktask_run_numa env sched nodes ctl rl =
           Inr \<lparr>res_status = KTASK_RETURN_SUCCESS, res_rlim = rl, res_calls = [], res_rets = []\<rparr>"
proof -
  from assms have "\<forall>kn \<in> set nodes. kn_task_size kn = 0"
    by (auto simp: unat_eq_zero)
  then have "fst (sum_sizes nodes (0, of_nat (length nodes))) = 0"
    by (rule sum_sizes_zero)
  then show ?thesis
    by (cases "sum_sizes nodes (0, of_nat (length nodes))") (simp add: ktask_run_numa_def)
qed


theorem ktask_run_numa_nothing_to_do_witness:
  "sum_list (map (\<lambda>kn. unat (kn_task_size kn))
      [\<lparr>kn_start = 4096, kn_task_size = 0, kn_nid = 0\<rparr>]) = 0
   \<and> ktask_run_numa five_cpu_env [] [\<lparr>kn_start = 4096, kn_task_size = 0, kn_nid = 0\<rparr>]
       \<lparr>kc_iter_func = ktask_iter_range, kc_min_chunk_size = 64, kc_max_threads = 4\<rparr>
       five_cpu_rlim
     = Inr \<lparr>res_status = KTASK_RETURN_SUCCESS, res_rlim = five_cpu_rlim, res_calls = [],
            res_rets = []\<rparr>"
  using ktask_run_numa_nothing_to_do [of "[\<lparr>kn_start = 4096, kn_task_size = 0, kn_nid = 0\<rparr>]"
      five_cpu_env "[]"
      "\<lparr>kc_iter_func = ktask_iter_range, kc_min_chunk_size = 64, kc_max_threads = 4\<rparr>"
      five_cpu_rlim]
  by simp

section \<open>Reserving works: proofs\<close>

lemma rlim_note_fields [simp]:
  "ktask_rlim_cur (oob_note a i rl) = ktask_rlim_cur rl"
  "ktask_rlim_max (oob_note a i rl) = ktask_rlim_max rl"
  "ktask_rlim_node_cur (oob_note a i rl) = ktask_rlim_node_cur rl"
  "ktask_rlim_node_max (oob_note a i rl) = ktask_rlim_node_max rl"
  by (simp_all add: oob_note_def)

lemma rlim_cmp_fields [simp]:
  "ktask_rlim_cur (node_cmp_note i rl) = ktask_rlim_cur rl"
  "ktask_rlim_max (node_cmp_note i rl) = ktask_rlim_max rl"
  "ktask_rlim_node_cur (node_cmp_note i rl) = ktask_rlim_node_cur rl"
  "ktask_rlim_node_max (node_cmp_note i rl) = ktask_rlim_node_max rl"
  by (simp_all add: node_cmp_note_def)

lemma rlim_inc_fields [simp]:
  "ktask_rlim_cur (node_cur_inc env i rl) = ktask_rlim_cur rl"
  "ktask_rlim_max (node_cur_inc env i rl) = ktask_rlim_max rl"
  "ktask_rlim_node_max (node_cur_inc env i rl) = ktask_rlim_node_max rl"
  by (simp_all add: node_cur_inc_def)

lemma rlim_dec_fields [simp]:
  "ktask_rlim_cur (node_cur_dec env i rl) = ktask_rlim_cur rl"
  "ktask_rlim_max (node_cur_dec env i rl) = ktask_rlim_max rl"
  "ktask_rlim_node_max (node_cur_dec env i rl) = ktask_rlim_node_max rl"
  by (simp_all add: node_cur_dec_def)

lemma init_works_loop_stop:
  "\<not> i < c \<Longrightarrow> init_works_loop env nodes c i nw rl works = Inr (nw, rl, works)"
  by (subst init_works_loop.simps) simp

lemma init_works_loop_break:
  "i < c \<Longrightarrow> nodes \<noteq> [] \<Longrightarrow> ktask_rlim_cur rl = ktask_rlim_max rl \<Longrightarrow>
   init_works_loop env nodes c i nw rl works = Inr (nw, rl, works)"
  by (subst init_works_loop.simps) (simp add: Let_def)

lemma init_works_loop_step:
  assumes "i < c" "nodes \<noteq> []" "ktask_rlim_cur rl \<noteq> ktask_rlim_max rl"
  shows "\<exists>q rl1. ktask_rlim_cur rl1 = ktask_rlim_cur rl + 1
            \<and> ktask_rlim_max rl1 = ktask_rlim_max rl
            \<and> init_works_loop env nodes c i nw rl works =
                init_works_loop env nodes c (i + 1) (nw + 1) rl1
                  (works @ [\<lparr>kw_ktask_node_i = unat i mod length nodes, kw_queue_nid = q\<rparr>])"
proof -
  let ?nid = "kn_nid (nodes ! (unat i mod length nodes))"
  let ?q = "if ?nid \<noteq> NUMA_NO_NODE \<and> node_cur_rd env rl ?nid < node_max_rd env rl ?nid
            then ?nid else NUMA_NO_NODE"
  let ?rl1 = "(if ?nid \<noteq> NUMA_NO_NODE
               then (if node_cur_rd env rl ?nid < node_max_rd env rl ?nid
                     then node_cur_inc env ?nid (node_cmp_note ?nid rl)
                     else node_cmp_note ?nid rl)
               else rl)\<lparr>ktask_rlim_cur := ktask_rlim_cur rl + 1\<rparr>"
  have "init_works_loop env nodes c i nw rl works =
          init_works_loop env nodes c (i + 1) (nw + 1) ?rl1
            (works @ [\<lparr>kw_ktask_node_i = unat i mod length nodes, kw_queue_nid = ?q\<rparr>])"
    using assms by (subst init_works_loop.simps) (simp add: Let_def)
  moreover have "ktask_rlim_cur ?rl1 = ktask_rlim_cur rl + 1" by simp
  moreover have "ktask_rlim_max ?rl1 = ktask_rlim_max rl" by simp
  ultimately show ?thesis by blast
qed

lemma init_works_loop_count:
  assumes "nodes \<noteq> []"
  shows "\<exists>k rl1 ws. init_works_loop env nodes c i nw rl works = Inr (nw + of_nat k, rl1, works @ ws)
           \<and> k \<le> unat c - unat i \<and> length ws = k
           \<and> (\<forall>kw \<in> set ws. kw_ktask_node_i kw < length nodes)
           \<and> (unat (ktask_rlim_cur rl) + (unat c - unat i) \<le> unat (ktask_rlim_max rl)
                \<longrightarrow> k = unat c - unat i)"
proof (induction "unat c - unat i" arbitrary: i nw rl works rule: less_induct)
  case less
  show ?case
  proof (cases "i < c")
    case False
    then have "unat c - unat i = 0" by unat_arith
    with False show ?thesis
      by (simp add: init_works_loop_stop)
  next
    case True
    then have d: "unat c - unat (i + 1) < unat c - unat i"
      and e: "unat c - unat i = Suc (unat c - unat (i + 1))" by unat_arith+
    show ?thesis
    proof (cases "ktask_rlim_cur rl = ktask_rlim_max rl")
      case eq: True
      have "\<not> unat (ktask_rlim_cur rl) + (unat c - unat i) \<le> unat (ktask_rlim_max rl)"
        using eq e by simp
      with True eq assms show ?thesis
        by (simp add: init_works_loop_break)
    next
      case ne: False
      from init_works_loop_step [OF True assms ne, of env nw works]
      obtain q rl1 where rl1: "ktask_rlim_cur rl1 = ktask_rlim_cur rl + 1"
          "ktask_rlim_max rl1 = ktask_rlim_max rl"
        and st: "init_works_loop env nodes c i nw rl works =
                init_works_loop env nodes c (i + 1) (nw + 1) rl1
                  (works @ [\<lparr>kw_ktask_node_i = unat i mod length nodes, kw_queue_nid = q\<rparr>])"
        by blast
      let ?kw = "\<lparr>kw_ktask_node_i = unat i mod length nodes, kw_queue_nid = q\<rparr>"
      from less [OF d, of "nw + 1" rl1 "works @ [?kw]"]
      obtain k rl2 ws where r: "init_works_loop env nodes c (i + 1) (nw + 1) rl1 (works @ [?kw])
             = Inr (nw + 1 + of_nat k, rl2, (works @ [?kw]) @ ws)"
        and k: "k \<le> unat c - unat (i + 1)" "length ws = k"
          "\<forall>kw \<in> set ws. kw_ktask_node_i kw < length nodes"
          "unat (ktask_rlim_cur rl1) + (unat c - unat (i + 1)) \<le> unat (ktask_rlim_max rl1)
                \<longrightarrow> k = unat c - unat (i + 1)"
        by blast
      have sat: "k = unat c - unat (i + 1)"
        if h: "unat (ktask_rlim_cur rl) + (unat c - unat i) \<le> unat (ktask_rlim_max rl)"
      proof -
        from h e have "ktask_rlim_cur rl < ktask_rlim_max rl" by unat_arith
        then have "unat (ktask_rlim_cur rl + 1) = Suc (unat (ktask_rlim_cur rl))" by unat_arith
        with h e rl1 k(4) show ?thesis by simp
      qed
      have "init_works_loop env nodes c i nw rl works
              = Inr (nw + of_nat (Suc k), rl2, works @ (?kw # ws))"
        using st r by (simp add: add.assoc)
      moreover have "Suc k \<le> unat c - unat i" using k(1) e by simp
      moreover have "length (?kw # ws) = Suc k" using k(2) by simp
      moreover have "\<forall>kw \<in> set (?kw # ws). kw_ktask_node_i kw < length nodes"
        using k(3) assms by simp
      moreover have "unat (ktask_rlim_cur rl) + (unat c - unat i) \<le> unat (ktask_rlim_max rl)
                \<longrightarrow> Suc k = unat c - unat i" using sat e by simp
      ultimately show ?thesis by blast
    qed
  qed
qed


lemma unat_lt_2p64: "unat (x::size_t) < 2 ^ 64"
  using unsigned_less [of x, where ?'a = nat] by simp

lemma unat_round_sum:
  assumes "m \<noteq> 0"
  shows "unat (t + m - 1 :: size_t) = (unat t + unat m - 1) mod 2 ^ 64"
proof -
  have m0: "0 < unat m" using assms by unat_arith
  have "t + m - 1 = t + (m - 1)" by simp
  moreover have "unat (m - 1) = unat m - 1" using assms by (rule unat_minus_one)
  ultimately have "unat (t + m - 1) = (unat t + (unat m - 1)) mod 2 ^ LENGTH(64)"
    by (simp only: unat_word_ariths(1))
  with m0 show ?thesis by simp
qed

lemma unat_DIV_ROUND_UP_le:
  assumes "m \<noteq> 0"
  shows "unat (DIV_ROUND_UP t m) \<le> (unat t + unat m - 1) div unat m"
proof -
  have "unat (DIV_ROUND_UP t m) = ((unat t + unat m - 1) mod 2 ^ 64) div unat m"
    using unat_round_sum [OF assms, of t] by (simp add: DIV_ROUND_UP_def unat_div_distrib)
  also have "\<dots> \<le> (unat t + unat m - 1) div unat m"
    by (rule div_le_mono) (rule mod_less_eq_dividend)
  finally show ?thesis .
qed

lemma unat_DIV_ROUND_UP:
  assumes "m \<noteq> 0" and "unat t + unat m - 1 < 2 ^ 64"
  shows "unat (DIV_ROUND_UP t m) = (unat t + unat m - 1) div unat m"
  using unat_round_sum [OF assms(1), of t] assms(2)
  by (simp add: DIV_ROUND_UP_def unat_div_distrib)

lemma unat_min: "unat (min (a::size_t) b) = min (unat a) (unat b)"
  by (simp add: min_def word_le_nat_alt)

lemma unat_nr_works_check_le:
  assumes "kc_min_chunk_size ctl \<noteq> 0"
  shows "unat (min (min (DIV_ROUND_UP total_size (kc_min_chunk_size ctl)) (env_online_cpus env))
                 (if kc_max_threads ctl = 0 then ktask_max_threads else kc_max_threads ctl))
         \<le> nr_wanted (unat total_size) (unat (kc_min_chunk_size ctl)) (unat (env_online_cpus env))
             (unat (kc_max_threads ctl))"
  using unat_DIV_ROUND_UP_le [OF assms, of total_size]
  by (simp add: unat_min nr_wanted_def ktask_max_threads_def
      KTASK_DEFAULT_MAX_THREADS_def unat_eq_zero min_le_iff_disj)

lemma unat_nr_works_check:
  assumes "kc_min_chunk_size ctl \<noteq> 0"
    and "unat total_size + unat (kc_min_chunk_size ctl) - 1 < 2 ^ 64"
  shows "unat (min (min (DIV_ROUND_UP total_size (kc_min_chunk_size ctl)) (env_online_cpus env))
                 (if kc_max_threads ctl = 0 then ktask_max_threads else kc_max_threads ctl))
         = nr_wanted (unat total_size) (unat (kc_min_chunk_size ctl)) (unat (env_online_cpus env))
             (unat (kc_max_threads ctl))"
  using assms
  by (simp add: unat_min unat_DIV_ROUND_UP nr_wanted_def ktask_max_threads_def
      KTASK_DEFAULT_MAX_THREADS_def unat_eq_zero)

lemma nr_wanted_pos:
  assumes "0 < t" "0 < m" "0 < cpus"
  shows "1 \<le> nr_wanted t m cpus mt"
proof -
  have "m \<le> t + m - 1" using assms by simp
  then have "m div m \<le> (t + m - 1) div m" by (rule div_le_mono)
  then have "1 \<le> (t + m - 1) div m" using assms by simp
  then show ?thesis using assms by (simp add: nr_wanted_def)
qed

text \<open>
  \<^verbatim>\<open>DIV_ROUND_UP\<close> adds before it divides, and the sum wraps: a task of \<open>2^64 - 1\<close> bytes
  with a minimum chunk size of 2, five online cpus, a thread limit of 3, a workqueue and
  free caps gets one work, where the minimum of \<open>ceil(total / min_chunk_size)\<close>, the cpus
  and the thread limit is 3.
\<close>

theorem ktask_init_works_count_counterexample:
  "ktask_init_works five_cpu_env
      [\<lparr>kn_start = 0, kn_task_size = 18446744073709551615, kn_nid = 0\<rparr>]
      18446744073709551615
      \<lparr>kc_iter_func = ktask_iter_range, kc_min_chunk_size = 2, kc_max_threads = 3\<rparr>
      five_cpu_rlim
     = Inr (1, five_cpu_rlim, [])
   \<and> nr_wanted (unat (18446744073709551615 :: size_t)) (unat (2 :: size_t))
       (unat (env_online_cpus five_cpu_env)) (unat (3 :: size_t)) = 3
   \<and> env_wq five_cpu_env
   \<and> unat (ktask_rlim_cur five_cpu_rlim) + (3 - 1) \<le> unat (ktask_rlim_max five_cpu_rlim)
   \<and> DIV_ROUND_UP 18446744073709551615 2 = 0"
proof -
  have d: "DIV_ROUND_UP 18446744073709551615 2 = 0"
    by (simp add: DIV_ROUND_UP_def)
  have "init_works_loop five_cpu_env
          [\<lparr>kn_start = 0, kn_task_size = 18446744073709551615, kn_nid = 0\<rparr>] 0 1 1
          five_cpu_rlim [] = Inr (1, five_cpu_rlim, [])"
    by (simp add: init_works_loop_stop)
  then have "ktask_init_works five_cpu_env
      [\<lparr>kn_start = 0, kn_task_size = 18446744073709551615, kn_nid = 0\<rparr>]
      18446744073709551615
      \<lparr>kc_iter_func = ktask_iter_range, kc_min_chunk_size = 2, kc_max_threads = 3\<rparr>
      five_cpu_rlim
     = Inr (1, five_cpu_rlim, [])"
    by (simp add: ktask_init_works_def d five_cpu_env_def)
  moreover have "nr_wanted (unat (18446744073709551615 :: size_t)) (unat (2 :: size_t))
       (unat (env_online_cpus five_cpu_env)) (unat (3 :: size_t)) = 3"
    by (simp add: nr_wanted_def five_cpu_env_def)
  ultimately show ?thesis
    using d by (simp add: five_cpu_env_def five_cpu_rlim_def)
qed

text \<open>
  C5. For a task with work left (a positive total, a nonzero minimum chunk size, a
  nonempty node array, at least one online cpu), \<^verbatim>\<open>ktask_init_works\<close> returns a
  number of works between 1 and the minimum of \<open>ceil(total / min_chunk_size)\<close>, the
  online cpus and the thread limit (the caller's, or 4 when that is 0). It returns that
  minimum when the workqueue exists, \<open>total + min_chunk_size - 1\<close> fits in a
  \<^verbatim>\<open>size_t\<close> and the global cap leaves room for all the extra works (per-node caps never
  reduce the number), and 1 when the workqueue is unavailable.
\<close>

theorem ktask_init_works_count:
  assumes "0 < total_size" and "kc_min_chunk_size ctl \<noteq> 0" and "nodes \<noteq> []"
    and "env_online_cpus env \<noteq> 0"
  shows "\<exists>nworks rl1 works.
           ktask_init_works env nodes total_size ctl rl = Inr (nworks, rl1, works)
         \<and> 1 \<le> unat nworks
         \<and> unat nworks \<le> nr_wanted (unat total_size) (unat (kc_min_chunk_size ctl))
                            (unat (env_online_cpus env)) (unat (kc_max_threads ctl))
         \<and> (env_wq env \<and>
              unat total_size + unat (kc_min_chunk_size ctl) - 1 < 2 ^ 64 \<and>
              unat (ktask_rlim_cur rl)
                + (nr_wanted (unat total_size) (unat (kc_min_chunk_size ctl))
                     (unat (env_online_cpus env)) (unat (kc_max_threads ctl)) - 1)
              \<le> unat (ktask_rlim_max rl)
            \<longrightarrow> unat nworks = nr_wanted (unat total_size) (unat (kc_min_chunk_size ctl))
                                  (unat (env_online_cpus env)) (unat (kc_max_threads ctl)))
         \<and> (\<not> env_wq env \<longrightarrow> nworks = 1)"
proof -
  let ?w = "nr_wanted (unat total_size) (unat (kc_min_chunk_size ctl))
              (unat (env_online_cpus env)) (unat (kc_max_threads ctl))"
  have pos: "1 \<le> ?w"
  proof (rule nr_wanted_pos)
    show "0 < unat total_size" using assms(1) by unat_arith
    show "0 < unat (kc_min_chunk_size ctl)" using assms(2) by unat_arith
    show "0 < unat (env_online_cpus env)" using assms(4) by unat_arith
  qed
  show ?thesis
  proof (cases "env_wq env")
    case False
    with pos show ?thesis by (simp add: ktask_init_works_def)
  next
    case True
    let ?c = "min (min (DIV_ROUND_UP total_size (kc_min_chunk_size ctl)) (env_online_cpus env))
                 (if kc_max_threads ctl = 0 then ktask_max_threads else kc_max_threads ctl)"
    have cle: "unat ?c \<le> ?w" using assms(2) by (rule unat_nr_works_check_le)
    have ceq: "unat ?c = ?w"
      if "unat total_size + unat (kc_min_chunk_size ctl) - 1 < 2 ^ 64"
      using assms(2) that by (rule unat_nr_works_check)
    from init_works_loop_count [OF assms(3), of env ?c 1 1 rl "[]"]
    obtain k rl1 ws where r: "init_works_loop env nodes ?c 1 1 rl [] = Inr (1 + of_nat k, rl1, ws)"
      and k: "k \<le> unat ?c - unat (1::size_t)"
        "unat (ktask_rlim_cur rl) + (unat ?c - unat (1::size_t)) \<le> unat (ktask_rlim_max rl)
           \<longrightarrow> k = unat ?c - unat (1::size_t)"
      by auto
    have k1: "Suc k \<le> ?w" using k(1) cle pos by simp
    have "?w < 2 ^ 64"
    proof -
      have "?w \<le> unat (env_online_cpus env)" by (simp add: nr_wanted_def)
      with unat_lt_2p64 [of "env_online_cpus env"] show ?thesis by simp
    qed
    with k1 have "unat (1 + of_nat k :: size_t) = Suc k"
      by (simp add: unat_word_ariths unat_of_nat)
    moreover have "ktask_init_works env nodes total_size ctl rl = Inr (1 + of_nat k, rl1, ws)"
      using True assms(2) r by (simp add: ktask_init_works_def Let_def)
    moreover have "unat total_size + unat (kc_min_chunk_size ctl) - 1 < 2 ^ 64
                   \<and> unat (ktask_rlim_cur rl) + (?w - 1) \<le> unat (ktask_rlim_max rl)
                   \<longrightarrow> Suc k = ?w"
      using k(2) ceq pos by auto
    ultimately show ?thesis using True k1 by simp
  qed
qed

theorem ktask_init_works_count_witness:
  "(0::size_t) < 8192
   \<and> kc_min_chunk_size
        \<lparr>kc_iter_func = ktask_iter_range, kc_min_chunk_size = 256, kc_max_threads = 3\<rparr> \<noteq> 0
   \<and> [\<lparr>kn_start = 0, kn_task_size = 4096, kn_nid = 0\<rparr>,
       \<lparr>kn_start = 65536, kn_task_size = 4096, kn_nid = 1\<rparr>] \<noteq> []
   \<and> env_online_cpus five_cpu_env \<noteq> 0
   \<and> env_wq five_cpu_env
   \<and> unat (8192 :: size_t) + unat (256 :: size_t) - 1 < 2 ^ 64
   \<and> unat (ktask_rlim_cur five_cpu_rlim) + (nr_wanted 8192 256 5 3 - 1)
        \<le> unat (ktask_rlim_max five_cpu_rlim)
   \<and> (\<exists>nworks rl1 works.
         ktask_init_works five_cpu_env
           [\<lparr>kn_start = 0, kn_task_size = 4096, kn_nid = 0\<rparr>,
            \<lparr>kn_start = 65536, kn_task_size = 4096, kn_nid = 1\<rparr>] 8192
           \<lparr>kc_iter_func = ktask_iter_range, kc_min_chunk_size = 256, kc_max_threads = 3\<rparr>
           five_cpu_rlim = Inr (nworks, rl1, works)
         \<and> unat nworks = nr_wanted 8192 256 5 3 \<and> nr_wanted 8192 256 5 3 = 3)"
  using ktask_init_works_count [of 8192
      "\<lparr>kc_iter_func = ktask_iter_range, kc_min_chunk_size = 256, kc_max_threads = 3\<rparr>"
      "[\<lparr>kn_start = 0, kn_task_size = 4096, kn_nid = 0\<rparr>,
        \<lparr>kn_start = 65536, kn_task_size = 4096, kn_nid = 1\<rparr>]" five_cpu_env five_cpu_rlim]
  by (auto simp: five_cpu_env_def five_cpu_rlim_def nr_wanted_def)

section \<open>The worker loop: one step\<close>

lemma sum_list_map_update:
  fixes f :: "'a \<Rightarrow> nat"
  assumes "i < length xs"
  shows "sum_list (map f (xs[i := y])) + f (xs ! i) = sum_list (map f xs) + f y"
  using assms
proof (induction xs arbitrary: i)
  case Nil
  then show ?case by simp
next
  case (Cons x xs)
  then show ?case by (cases i) auto
qed

lemma length_filter_update:
  assumes "i < length xs"
  shows "length (filter P (xs[i := y])) + (if P (xs ! i) then 1 else 0)
         = length (filter P xs) + (if P y then 1 else 0)"
  using assms
proof (induction xs arbitrary: i)
  case Nil
  then show ?case by simp
next
  case (Cons x xs)
  then show ?case by (cases i) auto
qed

lemma length_work_left_indices:
  "length (work_left_indices nodes) = length (filter (\<lambda>kn. kn_task_size kn \<noteq> 0) nodes)"
  by (induction nodes) (simp_all add: work_left_indices_Cons, simp add: work_left_indices_def)

lemma work_sum_update:
  assumes "j < length nodes"
  shows "work_sum (nodes[j := kn]) + unat (kn_task_size (nodes ! j))
         = work_sum nodes + unat (kn_task_size kn)"
  unfolding work_sum_def using assms by (rule sum_list_map_update)

lemma work_sum_zero_iff:
  "work_sum nodes = 0 \<longleftrightarrow> (\<forall>kn \<in> set nodes. kn_task_size kn = 0)"
  by (auto simp: work_sum_def unat_eq_zero)



lemma claim_chunk_fields:
  "kt_nodes (sys_task (claim_chunk w j s)) =
     (kt_nodes (sys_task s))[j := (kt_nodes (sys_task s) ! j)
        \<lparr>kn_start := kc_iter_func (kt_ctl (sys_task s)) (kn_start (kt_nodes (sys_task s) ! j))
                      (min (kt_chunk_size (sys_task s)) (kn_task_size (kt_nodes (sys_task s) ! j))),
         kn_task_size := kn_task_size (kt_nodes (sys_task s) ! j)
                         - min (kt_chunk_size (sys_task s)) (kn_task_size (kt_nodes (sys_task s) ! j))\<rparr>]"
  "kt_total_size (sys_task (claim_chunk w j s)) =
     kt_total_size (sys_task s)
       - min (kt_chunk_size (sys_task s)) (kn_task_size (kt_nodes (sys_task s) ! j))"
  "kt_nr_nodes_left (sys_task (claim_chunk w j s)) =
     (if kn_task_size (kt_nodes (sys_task s) ! j)
           - min (kt_chunk_size (sys_task s)) (kn_task_size (kt_nodes (sys_task s) ! j)) = 0
      then kt_nr_nodes_left (sys_task s) - 1 else kt_nr_nodes_left (sys_task s))"
  "kt_chunk_size (sys_task (claim_chunk w j s)) = kt_chunk_size (sys_task s)"
  "kt_ctl (sys_task (claim_chunk w j s)) = kt_ctl (sys_task s)"
  "kt_error (sys_task (claim_chunk w j s)) = kt_error (sys_task s)"
  "kt_nworks (sys_task (claim_chunk w j s)) = kt_nworks (sys_task s)"
  "kt_nworks_fini (sys_task (claim_chunk w j s)) = kt_nworks_fini (sys_task s)"
  "kt_ktask_done (sys_task (claim_chunk w j s)) = kt_ktask_done (sys_task s)"
  "sys_workers (claim_chunk w j s) =
     (sys_workers s)[w := (sys_workers s ! w)\<lparr>w_state := Processing j\<rparr>]"
  "sys_calls (claim_chunk w j s) =
     sys_calls s @ [(j, kn_start (kt_nodes (sys_task s) ! j),
        kc_iter_func (kt_ctl (sys_task s)) (kn_start (kt_nodes (sys_task s) ! j))
          (min (kt_chunk_size (sys_task s)) (kn_task_size (kt_nodes (sys_task s) ! j))))]"
  "sys_rets (claim_chunk w j s) = sys_rets s"
  "sys_rlim (claim_chunk w j s) = sys_rlim s"
  by (simp_all add: claim_chunk_def Let_def)

lemma thread_exit_fields:
  "kt_nodes (sys_task (thread_exit w s)) = kt_nodes (sys_task s)"
  "kt_total_size (sys_task (thread_exit w s)) = kt_total_size (sys_task s)"
  "kt_nr_nodes_left (sys_task (thread_exit w s)) = kt_nr_nodes_left (sys_task s)"
  "kt_chunk_size (sys_task (thread_exit w s)) = kt_chunk_size (sys_task s)"
  "kt_ctl (sys_task (thread_exit w s)) = kt_ctl (sys_task s)"
  "kt_error (sys_task (thread_exit w s)) = kt_error (sys_task s)"
  "kt_nworks (sys_task (thread_exit w s)) = kt_nworks (sys_task s)"
  "kt_nworks_fini (sys_task (thread_exit w s)) = kt_nworks_fini (sys_task s) + 1"
  "kt_ktask_done (sys_task (thread_exit w s)) =
     (kt_ktask_done (sys_task s) \<or> kt_nworks_fini (sys_task s) + 1 = kt_nworks (sys_task s))"
  "sys_workers (thread_exit w s) = (sys_workers s)[w := (sys_workers s ! w)\<lparr>w_state := Finished\<rparr>]"
  "sys_calls (thread_exit w s) = sys_calls s"
  "sys_rets (thread_exit w s) = sys_rets s"
  "sys_rlim (thread_exit w s) = sys_rlim s"
  by (simp_all add: thread_exit_def Let_def)

lemma latch_error_fields:
  "kt_nodes (sys_task (latch_error ret s)) = kt_nodes (sys_task s)"
  "kt_total_size (sys_task (latch_error ret s)) = kt_total_size (sys_task s)"
  "kt_nr_nodes_left (sys_task (latch_error ret s)) = kt_nr_nodes_left (sys_task s)"
  "kt_chunk_size (sys_task (latch_error ret s)) = kt_chunk_size (sys_task s)"
  "kt_ctl (sys_task (latch_error ret s)) = kt_ctl (sys_task s)"
  "kt_error (sys_task (latch_error ret s)) =
     (if kt_error (sys_task s) = KTASK_RETURN_SUCCESS then ret else kt_error (sys_task s))"
  "kt_nworks (sys_task (latch_error ret s)) = kt_nworks (sys_task s)"
  "kt_nworks_fini (sys_task (latch_error ret s)) = kt_nworks_fini (sys_task s)"
  "kt_ktask_done (sys_task (latch_error ret s)) = kt_ktask_done (sys_task s)"
  "sys_workers (latch_error ret s) = sys_workers s"
  "sys_calls (latch_error ret s) = sys_calls s"
  "sys_rets (latch_error ret s) = sys_rets s @ [ret]"
  "sys_rlim (latch_error ret s) = sys_rlim s"
  by (simp_all add: latch_error_def Let_def)

text \<open>What one pass through the loop head can do.\<close>

lemma thread_loop_cases:
  assumes "thread_loop env ch w k s = Inr s1"
  obtains
    (exit) "\<not> (kt_total_size (sys_task s) > 0 \<and> kt_error (sys_task s) = KTASK_RETURN_SUCCESS)"
      "s1 = thread_exit w s"
  | (claim) j where "kt_total_size (sys_task s) \<noteq> 0"
      "kt_error (sys_task s) = KTASK_RETURN_SUCCESS"
      "k < length (kt_nodes (sys_task s))" "j < length (kt_nodes (sys_task s))"
      "if kn_task_size (kt_nodes (sys_task s) ! k) = 0
       then j = pick_new_node (sys_task s) (ch_rand ch) else j = k"
      "s1 = claim_chunk w j s"
  | (migrate) kw rl where "kt_total_size (sys_task s) \<noteq> 0"
      "kt_error (sys_task s) = KTASK_RETURN_SUCCESS"
      "k < length (kt_nodes (sys_task s))"
      "kn_task_size (kt_nodes (sys_task s) ! k) = 0"
      "pick_new_node (sys_task s) (ch_rand ch) < length (kt_nodes (sys_task s))"
      "kw_ktask_node_i kw = pick_new_node (sys_task s) (ch_rand ch)"
      "s1 = s\<lparr>sys_rlim := rl,
               sys_workers := (sys_workers s)[w := (sys_workers s ! w)\<lparr>w_kw := kw, w_state := Queued\<rparr>]\<rparr>"
proof (cases "kt_total_size (sys_task s) > 0 \<and> kt_error (sys_task s) = KTASK_RETURN_SUCCESS")
  case False
  with assms have "s1 = thread_exit w s" by (auto simp: thread_loop_def Let_def)
  with False show ?thesis by (rule exit)
next
  case True
  then have t: "kt_total_size (sys_task s) \<noteq> 0" by auto
  let ?nodes = "kt_nodes (sys_task s)"
  from assms True have k: "k < length ?nodes"
    by (auto simp: thread_loop_def Let_def split: if_splits)
  show ?thesis
  proof (cases "kn_task_size (?nodes ! k) = 0")
    case False
    with assms True k have "s1 = claim_chunk w k s" by (auto simp: thread_loop_def Let_def)
    with t True k False show ?thesis by (intro claim [of k]) auto
  next
    case z: True
    let ?i = "pick_new_node (sys_task s) (ch_rand ch)"
    from assms True k z have i: "?i < length ?nodes"
      by (auto simp: thread_loop_def Let_def split: if_splits)
    obtain mg kw rl where m: "ktask_node_migrate env (w_kthread (sys_workers s ! w)) (?nodes ! k)
        (?nodes ! ?i) ?i (w_kw (sys_workers s ! w)) (sys_rlim s) = (mg, kw, rl)"
      by (metis prod_cases3)
    show ?thesis
    proof (cases mg)
      case False
      with assms True k z i m have "s1 = claim_chunk w ?i s"
        by (auto simp: thread_loop_def Let_def)
      with t True k z i show ?thesis by (intro claim [of ?i]) auto
    next
      case mg: True
      with assms True k z i m have s1: "s1 = s\<lparr>sys_rlim := rl,
               sys_workers := (sys_workers s)[w := (sys_workers s ! w)\<lparr>w_kw := kw, w_state := Queued\<rparr>]\<rparr>"
        by (auto simp: thread_loop_def Let_def)
      from m mg have "kw_ktask_node_i kw = ?i"
        by (auto simp: ktask_node_migrate_def Let_def split: if_splits prod.splits)
      with t True k z i s1 show ?thesis by (intro migrate [of kw rl]) auto
    qed
  qed
qed


section \<open>The task invariant\<close>









section \<open>Completion accounting\<close>

lemma runnable_empty_iff:
  "runnable s = [] \<longleftrightarrow> list_all (\<lambda>wk. w_state wk = Finished) (sys_workers s)"
  by (auto simp: runnable_def filter_empty_conv list_all_length)

lemma runnable_mem:
  "w \<in> set (runnable s) \<longleftrightarrow> w < length (sys_workers s) \<and> w_state (sys_workers s ! w) \<noteq> Finished"
  by (auto simp: runnable_def)

lemma all_finished_count:
  "list_all P xs \<longleftrightarrow> length (filter P xs) = length xs"
proof (induction xs)
  case Nil
  show ?case by simp
next
  case (Cons x xs)
  show ?case
  proof (cases "P x")
    case True
    with Cons show ?thesis by simp
  next
    case False
    have "length (filter P xs) \<le> length xs" by (rule length_filter_le)
    then have "length (filter P xs) \<noteq> Suc (length xs)" by linarith
    with False show ?thesis by simp
  qed
qed

lemma fini_ok_latch: "fini_ok (latch_error ret s) = fini_ok s"
  by (simp add: fini_ok_def latch_error_fields runnable_def)

lemma fini_ok_keep:
  assumes "fini_ok s" and "w < length (sys_workers s)"
    and "w_state (sys_workers s ! w) \<noteq> Finished" and "w_state wk \<noteq> Finished"
    and "sys_workers s1 = (sys_workers s)[w := wk]"
    and "kt_nworks (sys_task s1) = kt_nworks (sys_task s)"
    and "kt_nworks_fini (sys_task s1) = kt_nworks_fini (sys_task s)"
    and "kt_ktask_done (sys_task s1) = kt_ktask_done (sys_task s)"
  shows "fini_ok s1"
proof -
  let ?P = "\<lambda>wk. w_state wk = Finished"
  have "length (filter ?P ((sys_workers s)[w := wk])) + (if ?P (sys_workers s ! w) then 1 else 0)
        = length (filter ?P (sys_workers s)) + (if ?P wk then 1 else 0)"
    using assms(2) by (rule length_filter_update)
  then have c: "length (filter ?P (sys_workers s1)) = length (filter ?P (sys_workers s))"
    using assms(3,4,5) by simp
  have "runnable s \<noteq> []" using assms(2,3) runnable_mem [of w s] by auto
  moreover have "w \<in> set (runnable s1)"
    using assms(2,4,5) by (simp add: runnable_mem)
  then have "runnable s1 \<noteq> []" by auto
  ultimately show ?thesis using assms(1,5,6,7,8) c by (simp add: fini_ok_def)
qed

lemma fini_ok_exit:
  assumes "fini_ok s" and "w < length (sys_workers s)"
    and "w_state (sys_workers s ! w) \<noteq> Finished"
  shows "fini_ok (thread_exit w s)"
proof -
  let ?P = "\<lambda>wk. w_state wk = Finished"
  let ?ws = "sys_workers s"
  let ?ws1 = "?ws[w := (?ws ! w)\<lparr>w_state := Finished\<rparr>]"
  from assms(1) have n: "unat (kt_nworks (sys_task s)) = length ?ws"
    and f: "unat (kt_nworks_fini (sys_task s)) = length (filter ?P ?ws)"
    by (simp_all add: fini_ok_def)
  have "length (filter ?P ?ws1) + (if ?P (?ws ! w) then 1 else 0)
        = length (filter ?P ?ws) + (if ?P ((?ws ! w)\<lparr>w_state := Finished\<rparr>) then 1 else 0)"
    using assms(2) by (rule length_filter_update)
  then have c: "length (filter ?P ?ws1) = Suc (length (filter ?P ?ws))"
    using assms(3) by simp
  have "length (filter ?P ?ws1) \<le> length ?ws1" by (rule length_filter_le)
  with c have lt: "length (filter ?P ?ws) < length ?ws" by simp
  then have "kt_nworks_fini (sys_task s) < kt_nworks (sys_task s)"
    using n f by (simp add: word_less_nat_alt)
  then have u: "unat (kt_nworks_fini (sys_task s) + 1) = Suc (unat (kt_nworks_fini (sys_task s)))"
    by unat_arith
  have "runnable s \<noteq> []" using assms(2,3) runnable_mem [of w s] by auto
  then have nd: "\<not> kt_ktask_done (sys_task s)" using assms(1) by (simp add: fini_ok_def)
  have "(kt_nworks_fini (sys_task s) + 1 = kt_nworks (sys_task s))
        \<longleftrightarrow> length (filter ?P ?ws1) = length ?ws1"
    using u n f c by (simp add: word_unat_eq_iff)
  then have "(kt_nworks_fini (sys_task s) + 1 = kt_nworks (sys_task s))
        \<longleftrightarrow> runnable (thread_exit w s) = []"
    by (simp add: runnable_empty_iff thread_exit_fields all_finished_count)
  with nd u n f c show ?thesis
    by (simp add: fini_ok_def thread_exit_fields)
qed

lemma thread_loop_fini_ok:
  assumes "fini_ok s" and "w < length (sys_workers s)"
    and "w_state (sys_workers s ! w) \<noteq> Finished"
    and "thread_loop env ch w k s = Inr s1"
  shows "fini_ok s1"
  using assms(4)
proof (cases rule: thread_loop_cases)
  case exit
  with assms show ?thesis by (simp add: fini_ok_exit)
next
  case (claim j)
  show ?thesis
    by (rule fini_ok_keep [OF assms(1,2,3), of "(sys_workers s ! w)\<lparr>w_state := Processing j\<rparr>"])
      (simp_all add: claim claim_chunk_fields)
next
  case (migrate kw rl)
  show ?thesis
    by (rule fini_ok_keep [OF assms(1,2,3), of "(sys_workers s ! w)\<lparr>w_kw := kw, w_state := Queued\<rparr>"])
      (simp_all add: migrate)
qed

section \<open>Progress\<close>








lemma sched_step_idle: "runnable s = [] \<Longrightarrow> sched_step env ch s = Inr s"
  by (simp add: sched_step_def)

lemma sched_step_pick:
  assumes "runnable s \<noteq> []"
  obtains w where "w < length (sys_workers s)" "w_state (sys_workers s ! w) \<noteq> Finished"
    "sched_step env ch s = ktask_thread_step env ch w s"
proof -
  let ?w = "runnable s ! (ch_worker ch mod length (runnable s))"
  have "?w \<in> set (runnable s)" using assms by (intro nth_mem) simp
  then have "?w < length (sys_workers s)" "w_state (sys_workers s ! ?w) \<noteq> Finished"
    by (simp_all add: runnable_mem)
  moreover have "sched_step env ch s = ktask_thread_step env ch ?w s"
    using assms by (cases "runnable s") (simp_all add: sched_step_def)
  ultimately show ?thesis by (rule that)
qed

lemma exec_idle: "runnable s = [] \<Longrightarrow> exec env sched s = Inr s"
  by (induction sched) (simp_all add: sched_step_idle)


section \<open>The initial state\<close>

lemma work_sum_Cons: "work_sum (kn # rest) = unat (kn_task_size kn) + work_sum rest"
  by (simp add: work_sum_def)

lemma sum_sizes_eq:
  "sum_sizes nodes (t, l) =
     (t + of_nat (work_sum nodes),
      l - of_nat (length (filter (\<lambda>kn. kn_task_size kn = 0) nodes)))"
  by (induction nodes arbitrary: t l) (simp_all add: work_sum_Cons work_sum_def [of "[]"])

lemma initial_nodes_left:
  assumes "length nodes < 2 ^ 64"
  shows "unat (of_nat (length nodes)
               - of_nat (length (filter (\<lambda>kn. kn_task_size kn = 0) nodes)) :: size_t)
         = length (work_left_indices nodes)"
proof -
  let ?Z = "length (filter (\<lambda>kn. kn_task_size kn = 0) nodes)"
  let ?N = "length (filter (\<lambda>kn. kn_task_size kn \<noteq> 0) nodes)"
  have s: "?Z + ?N = length nodes"
    using sum_length_filter_compl [of "\<lambda>kn. kn_task_size kn = 0" nodes] by simp
  then have "(of_nat (length nodes) :: size_t) = of_nat ?Z + of_nat ?N"
    by (metis of_nat_add)
  then have "(of_nat (length nodes) - of_nat ?Z :: size_t) = of_nat ?N" by simp
  moreover have "?N < 2 ^ 64" using s assms by linarith
  then have "unat (of_nat ?N :: size_t) = ?N" by (simp add: unat_of_nat)
  ultimately show ?thesis by (simp add: length_work_left_indices)
qed

lemma ktask_init_works_shape:
  assumes "nodes \<noteq> []" and "env_wq env \<longrightarrow> kc_min_chunk_size ctl \<noteq> 0"
  shows "\<exists>nworks rl1 works. ktask_init_works env nodes total_size ctl rl = Inr (nworks, rl1, works)
          \<and> unat nworks = Suc (length works)
          \<and> (\<forall>kw \<in> set works. kw_ktask_node_i kw < length nodes)
          \<and> (nworks = 1 \<or> kc_min_chunk_size ctl \<noteq> 0)"
proof (cases "env_wq env")
  case False
  then show ?thesis by (simp add: ktask_init_works_def)
next
  case True
  with assms(2) have mc: "kc_min_chunk_size ctl \<noteq> 0" by simp
  let ?c = "min (min (DIV_ROUND_UP total_size (kc_min_chunk_size ctl)) (env_online_cpus env))
                 (if kc_max_threads ctl = 0 then ktask_max_threads else kc_max_threads ctl)"
  from init_works_loop_count [OF assms(1), of env ?c 1 1 rl "[]"]
  obtain k rl1 ws where r: "init_works_loop env nodes ?c 1 1 rl [] = Inr (1 + of_nat k, rl1, ws)"
    and k: "k \<le> unat ?c - unat (1::size_t)" "length ws = k"
      "\<forall>kw \<in> set ws. kw_ktask_node_i kw < length nodes"
    by auto
  have "Suc k \<le> max 1 (unat ?c)" using k(1) by simp
  moreover have "max 1 (unat ?c) < 2 ^ 64" using unat_lt_2p64 [of ?c] by simp
  ultimately have "Suc k < 2 ^ 64" by linarith
  then have "unat (1 + of_nat k :: size_t) = Suc k"
    by (simp add: unat_word_ariths unat_of_nat)
  moreover have "ktask_init_works env nodes total_size ctl rl = Inr (1 + of_nat k, rl1, ws)"
    using True mc r by (simp add: ktask_init_works_def Let_def)
  ultimately show ?thesis using k(2,3) mc by simp
qed

lemma ktask_chunk_size_nonzero:
  assumes "total_size \<noteq> 0" and "nworks \<noteq> 0" and "nworks = 1 \<or> min_chunk \<noteq> 0"
  shows "\<exists>chunk. ktask_chunk_size total_size min_chunk nworks = Inr chunk \<and> chunk \<noteq> 0"
proof (cases "nworks = 1")
  case True
  with assms(1) show ?thesis by (simp add: ktask_chunk_size_def)
next
  case False
  with assms(3) have m: "min_chunk \<noteq> 0" by simp
  then have "max x min_chunk \<noteq> 0" for x
    by (metis max.cobounded2 word_le_0_iff)
  with False assms(2) m show ?thesis
    by (simp add: ktask_chunk_size_def Let_def)
qed

lemma initial_sys_fields:
  "kt_nodes (sys_task (initial_sys env nodes ctl t l nw ch rl works nid)) = nodes"
  "kt_ctl (sys_task (initial_sys env nodes ctl t l nw ch rl works nid)) = ctl"
  "kt_total_size (sys_task (initial_sys env nodes ctl t l nw ch rl works nid)) = t"
  "kt_nr_nodes_left (sys_task (initial_sys env nodes ctl t l nw ch rl works nid)) = l"
  "kt_chunk_size (sys_task (initial_sys env nodes ctl t l nw ch rl works nid)) = ch"
  "kt_nworks (sys_task (initial_sys env nodes ctl t l nw ch rl works nid)) = nw"
  "kt_nworks_fini (sys_task (initial_sys env nodes ctl t l nw ch rl works nid)) = 0"
  "kt_error (sys_task (initial_sys env nodes ctl t l nw ch rl works nid)) = KTASK_RETURN_SUCCESS"
  "kt_ktask_done (sys_task (initial_sys env nodes ctl t l nw ch rl works nid)) = False"
  "sys_calls (initial_sys env nodes ctl t l nw ch rl works nid) = []"
  "sys_rets (initial_sys env nodes ctl t l nw ch rl works nid) = []"
  "sys_workers (initial_sys env nodes ctl t l nw ch rl works nid) =
     \<lparr>w_kw = \<lparr>kw_ktask_node_i = 0, kw_queue_nid = nid\<rparr>,
      w_kthread = env_caller_kthread env, w_state = Queued\<rparr>
     # map (\<lambda>kw. \<lparr>w_kw = kw, w_kthread = True, w_state = Queued\<rparr>) works"
  by (simp_all add: initial_sys_def)

lemma initial_all_queued:
  "list_all (\<lambda>wk. w_state wk = Queued)
     (sys_workers (initial_sys env nodes ctl t l nw ch rl works nid))"
  by (simp add: initial_sys_fields list_all_iff)

lemma initial_fini_ok:
  assumes "unat nw = Suc (length works)"
  shows "fini_ok (initial_sys env nodes ctl t l nw ch rl works nid)"
proof -
  let ?s = "initial_sys env nodes ctl t l nw ch rl works nid"
  have "filter (\<lambda>wk. w_state wk = Finished) (sys_workers ?s) = []"
    by (simp add: initial_sys_fields filter_empty_conv)
  moreover have "\<not> list_all (\<lambda>wk. w_state wk = Finished) (sys_workers ?s)"
    by (simp add: initial_sys_fields)
  ultimately show ?thesis using assms
    by (simp add: fini_ok_def runnable_empty_iff initial_sys_fields(6,7,9))
      (simp add: initial_sys_fields(12))
qed

lemma initial_core_ok:
  assumes "length nodes < 2 ^ 64" and "nodes \<noteq> []" and "ch \<noteq> 0"
    and "\<forall>kw \<in> set works. kw_ktask_node_i kw < length nodes"
  shows "core_ok (initial_sys env nodes ctl (of_nat (work_sum nodes))
           (of_nat (length nodes) - of_nat (length (filter (\<lambda>kn. kn_task_size kn = 0) nodes)))
           nw ch rl works nid)"
  using assms initial_nodes_left [OF assms(1)]
  by (simp add: core_ok_def initial_sys_fields worker_ok_def list_all_iff)

section \<open>The whole call\<close>

lemma ktask_run_numa_done:
  assumes "(of_nat (work_sum nodes) :: size_t) = 0"
  shows "ktask_run_numa env sched nodes ctl rl =
           Inr \<lparr>res_status = KTASK_RETURN_SUCCESS, res_rlim = rl, res_calls = [], res_rets = []\<rparr>"
  using assms by (simp add: ktask_run_numa_def sum_sizes_eq)

lemma ktask_run_numa_start:
  assumes tot: "(of_nat (work_sum nodes) :: size_t) \<noteq> 0"
    and adm: "env_wq env \<longrightarrow> kc_min_chunk_size ctl \<noteq> 0"
  obtains s0 where "fini_ok s0" and "length nodes < 2 ^ 64 \<longrightarrow> core_ok s0"
    and "kt_nodes (sys_task s0) = nodes" and "kt_ctl (sys_task s0) = ctl"
    and "kt_error (sys_task s0) = KTASK_RETURN_SUCCESS"
    and "sys_calls s0 = []" and "sys_rets s0 = []"
    and "list_all (\<lambda>wk. w_state wk = Queued) (sys_workers s0)"
    and "kt_total_size (sys_task s0) = of_nat (work_sum nodes)" and "sys_workers s0 \<noteq> []"
    and "\<And>sched. ktask_run_numa env sched nodes ctl rl =
           (case exec env sched s0 of Inl e \<Rightarrow> Inl e | Inr s \<Rightarrow> wait_and_finish env s)"
proof -
  let ?t = "of_nat (work_sum nodes) :: size_t"
  let ?l = "of_nat (length nodes) - of_nat (length (filter (\<lambda>kn. kn_task_size kn = 0) nodes)) :: size_t"
  have ne: "nodes \<noteq> []" using tot by (auto simp: work_sum_def)
  then obtain kn0 rest where nodes: "nodes = kn0 # rest" by (cases nodes) auto
  from ktask_init_works_shape [OF ne adm, of ?t rl]
  obtain nworks rl1 works where iw: "ktask_init_works env nodes ?t ctl rl = Inr (nworks, rl1, works)"
    and nw: "unat nworks = Suc (length works)"
    and idx: "\<forall>kw \<in> set works. kw_ktask_node_i kw < length nodes"
    and one: "nworks = 1 \<or> kc_min_chunk_size ctl \<noteq> 0"
    by blast
  from nw have "nworks \<noteq> 0" by (metis Zero_not_Suc unat_0)
  from ktask_chunk_size_nonzero [OF tot this one]
  obtain chunk where cs: "ktask_chunk_size ?t (kc_min_chunk_size ctl) nworks = Inr chunk"
    and cnz: "chunk \<noteq> 0" by blast
  let ?s0 = "initial_sys env nodes ctl ?t ?l nworks chunk rl1 works (kn_nid kn0)"
  show ?thesis
  proof (rule that [of ?s0])
    show "fini_ok ?s0" using nw by (rule initial_fini_ok)
    show "length nodes < 2 ^ 64 \<longrightarrow> core_ok ?s0"
      using ne cnz idx by (auto intro: initial_core_ok)
    show "kt_nodes (sys_task ?s0) = nodes" "kt_ctl (sys_task ?s0) = ctl"
      "kt_error (sys_task ?s0) = KTASK_RETURN_SUCCESS" "sys_calls ?s0 = []" "sys_rets ?s0 = []"
      by (simp_all add: initial_sys_fields)
    show "list_all (\<lambda>wk. w_state wk = Queued) (sys_workers ?s0)"
      by (rule initial_all_queued)
    show "kt_total_size (sys_task ?s0) = of_nat (work_sum nodes)" "sys_workers ?s0 \<noteq> []"
      by (simp_all add: initial_sys_fields)
    show "ktask_run_numa env sched nodes ctl rl =
           (case exec env sched ?s0 of Inl e \<Rightarrow> Inl e | Inr s \<Rightarrow> wait_and_finish env s)" for sched
      using tot iw cs by (simp add: ktask_run_numa_def sum_sizes_eq nodes [symmetric])
        (simp add: nodes)
  qed
qed

lemma ktask_run_numa_admitted:
  assumes "ktask_run_numa env sched nodes ctl rl = Inr res"
    and "(of_nat (work_sum nodes) :: size_t) \<noteq> 0"
  shows "env_wq env \<longrightarrow> kc_min_chunk_size ctl \<noteq> 0"
proof (rule ccontr)
  assume "\<not> (env_wq env \<longrightarrow> kc_min_chunk_size ctl \<noteq> 0)"
  then have "ktask_init_works env nodes (of_nat (work_sum nodes)) ctl rl = Inl DivByZero"
    by (simp add: ktask_init_works_def)
  with assms show False by (simp add: ktask_run_numa_def sum_sizes_eq)
qed




section \<open>The first error\<close>

lemma sched_step_cases:
  assumes "sched_step env ch s = Inr s1"
  obtains (idle) "runnable s = []" "s1 = s"
  | (queued) w where "w < length (sys_workers s)" "w_state (sys_workers s ! w) = Queued"
      "thread_loop env ch w (kw_ktask_node_i (w_kw (sys_workers s ! w))) s = Inr s1"
  | (processing) w k where "w < length (sys_workers s)" "w_state (sys_workers s ! w) = Processing k"
      "thread_loop env ch w k (latch_error (ch_ret ch) s) = Inr s1"
proof (cases "runnable s = []")
  case True
  with assms have "s1 = s" by (simp add: sched_step_idle)
  with True show ?thesis by (rule idle)
next
  case False
  then obtain w where w: "w < length (sys_workers s)" "w_state (sys_workers s ! w) \<noteq> Finished"
    and st: "sched_step env ch s = ktask_thread_step env ch w s"
    by (rule sched_step_pick)
  show ?thesis
  proof (cases "w_state (sys_workers s ! w)")
    case Queued
    with assms st w(1) show ?thesis
      by (intro queued [of w]) (simp_all add: ktask_thread_step_def)
  next
    case (Processing k)
    with assms st w(1) show ?thesis
      by (intro processing [of w k]) (simp_all add: ktask_thread_step_def)
  next
    case Finished
    with w(2) show ?thesis by simp
  qed
qed

lemma first_error_snoc:
  "first_error (rets @ [r]) =
     (if first_error rets = KTASK_RETURN_SUCCESS then r else first_error rets)"
proof (cases "filter (\<lambda>r. r \<noteq> KTASK_RETURN_SUCCESS) rets")
  case Nil
  then show ?thesis by (simp add: first_error_def)
next
  case (Cons x xs)
  then have "x \<in> set (filter (\<lambda>r. r \<noteq> KTASK_RETURN_SUCCESS) rets)" by simp
  then have "x \<noteq> KTASK_RETURN_SUCCESS" by simp
  with Cons show ?thesis by (simp add: first_error_def)
qed

lemma first_error_success_iff:
  "first_error rets = KTASK_RETURN_SUCCESS \<longleftrightarrow> (\<forall>r \<in> set rets. r = KTASK_RETURN_SUCCESS)"
proof (cases "filter (\<lambda>r. r \<noteq> KTASK_RETURN_SUCCESS) rets")
  case Nil
  then show ?thesis by (simp add: first_error_def filter_empty_conv)
next
  case (Cons x xs)
  then have "x \<in> set (filter (\<lambda>r. r \<noteq> KTASK_RETURN_SUCCESS) rets)" by simp
  then have "x \<noteq> KTASK_RETURN_SUCCESS" "x \<in> set rets" by simp_all
  with Cons show ?thesis by (auto simp: first_error_def)
qed

lemma in_flight_update:
  assumes "w < length ws"
  shows "in_flight (ws[w := wk]) + (if is_processing (w_state (ws ! w)) then 1 else 0)
         = in_flight ws + (if is_processing (w_state wk) then 1 else 0)"
  unfolding in_flight_def using assms by (rule length_filter_update)

lemma thread_loop_error:
  assumes "thread_loop env ch w k s = Inr s1"
  shows "kt_error (sys_task s1) = kt_error (sys_task s)" and "sys_rets s1 = sys_rets s"
    and "kt_error (sys_task s) \<noteq> KTASK_RETURN_SUCCESS \<longrightarrow> sys_calls s1 = sys_calls s"
  using assms
  by (cases rule: thread_loop_cases;
      simp add: thread_exit_fields claim_chunk_fields)+

lemma thread_loop_in_flight:
  assumes "w < length (sys_workers s)" and "thread_loop env ch w k s = Inr s1"
  shows "length (sys_calls s1) + in_flight (sys_workers s)
         = length (sys_calls s) + in_flight (sys_workers s1)
           + (if is_processing (w_state (sys_workers s ! w)) then 1 else 0)"
  using assms(2)
proof (cases rule: thread_loop_cases)
  case exit
  from in_flight_update [OF assms(1), of "(sys_workers s ! w)\<lparr>w_state := Finished\<rparr>"]
  show ?thesis by (simp add: exit thread_exit_fields)
next
  case (claim j)
  from in_flight_update [OF assms(1), of "(sys_workers s ! w)\<lparr>w_state := Processing j\<rparr>"]
  show ?thesis by (simp add: claim claim_chunk_fields)
next
  case (migrate kw rl)
  from in_flight_update [OF assms(1), of "(sys_workers s ! w)\<lparr>w_kw := kw, w_state := Queued\<rparr>"]
  show ?thesis by (simp add: migrate)
qed

lemma sched_step_err_ok:
  assumes "sched_step env ch s = Inr s1" and "err_ok s"
  shows "err_ok s1"
  using assms(1)
proof (cases rule: sched_step_cases)
  case idle
  with assms(2) show ?thesis by simp
next
  case (queued w)
  from thread_loop_error [OF queued(3)] thread_loop_in_flight [OF queued(1,3)] queued(2) assms(2)
  show ?thesis by (simp add: err_ok_def)
next
  case (processing w k)
  let ?s0 = "latch_error (ch_ret ch) s"
  have w0: "w < length (sys_workers ?s0)" using processing(1) by (simp add: latch_error_fields)
  from thread_loop_error(1,2) [OF processing(3)] thread_loop_in_flight [OF w0 processing(3)]
    processing(2) assms(2)
  show ?thesis by (simp add: err_ok_def latch_error_fields first_error_snoc)
qed

lemma sched_step_latched:
  assumes "sched_step env ch s = Inr s1" and "kt_error (sys_task s) \<noteq> KTASK_RETURN_SUCCESS"
  shows "kt_error (sys_task s1) = kt_error (sys_task s)" and "sys_calls s1 = sys_calls s"
proof -
  have "kt_error (sys_task s1) = kt_error (sys_task s) \<and> sys_calls s1 = sys_calls s"
    using assms(1)
  proof (cases rule: sched_step_cases)
    case idle
    then show ?thesis by simp
  next
    case (queued w)
    from thread_loop_error [OF queued(3)] assms(2) show ?thesis by simp
  next
    case (processing w k)
    from thread_loop_error [OF processing(3)] assms(2) show ?thesis
      by (simp add: latch_error_fields)
  qed
  then show "kt_error (sys_task s1) = kt_error (sys_task s)" and "sys_calls s1 = sys_calls s"
    by simp_all
qed

lemma sched_step_fini_ok:
  assumes "sched_step env ch s = Inr s1" and "fini_ok s"
  shows "fini_ok s1"
  using assms(1)
proof (cases rule: sched_step_cases)
  case idle
  with assms(2) show ?thesis by simp
next
  case (queued w)
  from assms(2) queued(1) _ queued(3) show ?thesis
    by (rule thread_loop_fini_ok) (simp add: queued(2))
next
  case (processing w k)
  let ?s0 = "latch_error (ch_ret ch) s"
  have "fini_ok ?s0" using assms(2) by (simp add: fini_ok_latch)
  moreover have "w < length (sys_workers ?s0)" using processing(1) by (simp add: latch_error_fields)
  moreover have "w_state (sys_workers ?s0 ! w) \<noteq> Finished"
    using processing(2) by (simp add: latch_error_fields)
  ultimately show ?thesis using processing(3) by (rule thread_loop_fini_ok)
qed

lemma exec_err_fini_ok:
  assumes "exec env sched s = Inr s1" and "err_ok s" and "fini_ok s"
  shows "err_ok s1 \<and> fini_ok s1"
  using assms
proof (induction sched arbitrary: s)
  case Nil
  then show ?case by simp
next
  case (Cons ch chs)
  from Cons.prems(1) obtain s2 where st: "sched_step env ch s = Inr s2"
    and ex: "exec env chs s2 = Inr s1"
    by (auto split: sum.splits)
  from st Cons.prems(2) have "err_ok s2" by (rule sched_step_err_ok)
  moreover from st Cons.prems(3) have "fini_ok s2" by (rule sched_step_fini_ok)
  ultimately show ?case using ex by (intro Cons.IH)
qed

lemma finished_no_in_flight:
  assumes "fini_ok s" and "kt_ktask_done (sys_task s)"
  shows "in_flight (sys_workers s) = 0"
proof -
  from assms have "list_all (\<lambda>wk. w_state wk = Finished) (sys_workers s)"
    by (simp add: fini_ok_def runnable_empty_iff)
  then have "filter (\<lambda>wk. is_processing (w_state wk)) (sys_workers s) = []"
    by (auto simp: filter_empty_conv list_all_iff)
  then show ?thesis by (simp add: in_flight_def)
qed

lemma queued_no_in_flight:
  assumes "list_all (\<lambda>wk. w_state wk = Queued) ws"
  shows "in_flight ws = 0"
proof -
  from assms have "filter (\<lambda>wk. is_processing (w_state wk)) ws = []"
    by (auto simp: filter_empty_conv list_all_iff)
  then show ?thesis by (simp add: in_flight_def)
qed

lemma ktask_run_numa_status:
  assumes "ktask_run_numa env sched nodes ctl rl = Inr res"
  shows "res_status res = first_error (res_rets res)
       \<and> length (res_rets res) = length (res_calls res)"
proof (cases "(of_nat (work_sum nodes) :: size_t) = 0")
  case True
  with assms show ?thesis by (auto simp: ktask_run_numa_done first_error_def)
next
  case False
  from assms False have adm: "env_wq env \<longrightarrow> kc_min_chunk_size ctl \<noteq> 0"
    by (rule ktask_run_numa_admitted)
  from False adm show ?thesis
  proof (rule ktask_run_numa_start [where rl = rl])
    fix s0
    assume fin: "fini_ok s0" and e0: "kt_error (sys_task s0) = KTASK_RETURN_SUCCESS"
      and c0: "sys_calls s0 = []" and r0: "sys_rets s0 = []"
      and q0: "list_all (\<lambda>wk. w_state wk = Queued) (sys_workers s0)"
      and run: "\<And>sched. ktask_run_numa env sched nodes ctl rl =
           (case exec env sched s0 of Inl e \<Rightarrow> Inl e | Inr s \<Rightarrow> wait_and_finish env s)"
    have err0: "err_ok s0"
      using e0 c0 r0 queued_no_in_flight [OF q0] by (simp add: err_ok_def first_error_def)
    from assms run obtain s where ex: "exec env sched s0 = Inr s"
      and wf: "wait_and_finish env s = Inr res"
      by (auto split: sum.splits)
    from exec_err_fini_ok [OF ex err0 fin] have e: "err_ok s" and f: "fini_ok s" by simp_all
    from wf have d: "kt_ktask_done (sys_task s)"
      and res: "res_status res = kt_error (sys_task s)" "res_rets res = sys_rets s"
        "res_calls res = sys_calls s"
      by (auto simp: wait_and_finish_def split: if_splits)
    from finished_no_in_flight [OF f d] e res show ?thesis by (simp add: err_ok_def)
  qed
qed

text \<open>
  C7. \<^verbatim>\<open>kt_error\<close> is written once. A tenure of \<^verbatim>\<open>kt_mutex\<close> that starts with an error
  latched leaves the error as it is and claims no chunk; a tenure keeps \<^verbatim>\<open>kt_error\<close>
  equal to the first value other than success among the callback's return values, in the
  order in which the threads came back with them. When \<^verbatim>\<open>ktask_run_numa\<close> returns,
  every invocation of the callback has returned, the status is that first error, and it
  is success exactly when every invocation returned success.
\<close>

theorem first_error_write_once:
  "(sched_step env ch s = Inr s1 \<and> kt_error (sys_task s) \<noteq> KTASK_RETURN_SUCCESS \<longrightarrow>
      kt_error (sys_task s1) = kt_error (sys_task s) \<and> sys_calls s1 = sys_calls s)
   \<and> (sched_step env ch s = Inr s1 \<and> kt_error (sys_task s) = first_error (sys_rets s) \<longrightarrow>
      kt_error (sys_task s1) = first_error (sys_rets s1))
   \<and> (ktask_run_numa env sched nodes ctl rl = Inr res \<longrightarrow>
      res_status res = first_error (res_rets res)
      \<and> length (res_rets res) = length (res_calls res)
      \<and> (res_status res = KTASK_RETURN_SUCCESS
           \<longleftrightarrow> (\<forall>r \<in> set (res_rets res). r = KTASK_RETURN_SUCCESS)))"
proof -
  have p1: "kt_error (sys_task s1) = kt_error (sys_task s) \<and> sys_calls s1 = sys_calls s"
    if "sched_step env ch s = Inr s1" "kt_error (sys_task s) \<noteq> KTASK_RETURN_SUCCESS"
    using that by (simp add: sched_step_latched)
  have p2: "kt_error (sys_task s1) = first_error (sys_rets s1)"
    if st: "sched_step env ch s = Inr s1" and e: "kt_error (sys_task s) = first_error (sys_rets s)"
    using st
  proof (cases rule: sched_step_cases)
    case idle
    with e show ?thesis by simp
  next
    case (queued w)
    from thread_loop_error(1,2) [OF queued(3)] e show ?thesis by simp
  next
    case (processing w k)
    from thread_loop_error(1,2) [OF processing(3)] e show ?thesis
      by (simp add: latch_error_fields first_error_snoc)
  qed
  have p3: "res_status res = first_error (res_rets res)
      \<and> length (res_rets res) = length (res_calls res)
      \<and> (res_status res = KTASK_RETURN_SUCCESS
           \<longleftrightarrow> (\<forall>r \<in> set (res_rets res). r = KTASK_RETURN_SUCCESS))"
    if "ktask_run_numa env sched nodes ctl rl = Inr res"
    using ktask_run_numa_status [OF that] by (simp add: first_error_success_iff)
  from p1 p2 p3 show ?thesis by blast
qed

theorem first_error_write_once_witness:
  "sched_step five_cpu_env \<lparr>ch_worker = 0, ch_rand = 0, ch_ret = 0\<rparr>
       (projr (exec five_cpu_env (take 3 failing_sched) two_thread_start))
     = Inr (projr (exec five_cpu_env failing_sched two_thread_start))
   \<and> kt_error (sys_task (projr (exec five_cpu_env (take 3 failing_sched) two_thread_start))) = 7
   \<and> sys_rets (projr (exec five_cpu_env (take 3 failing_sched) two_thread_start)) = [7]
   \<and> ktask_run_numa five_cpu_env failing_sched one_node two_thread_ctl five_cpu_rlim
     = Inr \<lparr>res_status = 7, res_rlim = five_cpu_rlim,
            res_calls = [(0, 0, 256), (0, 256, 512)], res_rets = [7, 0]\<rparr>
   \<and> kt_error (sys_task (projr (exec five_cpu_env failing_sched two_thread_start))) = 7
   \<and> sys_calls (projr (exec five_cpu_env failing_sched two_thread_start))
     = sys_calls (projr (exec five_cpu_env (take 3 failing_sched) two_thread_start))
   \<and> first_error [7, 0] = 7"
proof -
  let ?s = "projr (exec five_cpu_env (take 3 failing_sched) two_thread_start)"
  let ?s1 = "projr (exec five_cpu_env failing_sched two_thread_start)"
  let ?res = "\<lparr>res_status = 7, res_rlim = five_cpu_rlim,
            res_calls = [(0, 0, 256), (0, 256, 512)], res_rets = [7, 0]\<rparr>"
  have h1: "sched_step five_cpu_env \<lparr>ch_worker = 0, ch_rand = 0, ch_ret = 0\<rparr> ?s = Inr ?s1"
    by code_simp
  have h2: "kt_error (sys_task ?s) = 7" by code_simp
  have h3: "sys_rets ?s = [7]" by code_simp
  have h4: "ktask_run_numa five_cpu_env failing_sched one_node two_thread_ctl five_cpu_rlim
     = Inr ?res" by code_simp
  have h5: "kt_error (sys_task ?s) \<noteq> KTASK_RETURN_SUCCESS"
    using h2 by (simp add: KTASK_RETURN_SUCCESS_def)
  have h6: "kt_error (sys_task ?s) = first_error (sys_rets ?s)"
    using h2 h3 by (simp add: first_error_def KTASK_RETURN_SUCCESS_def)
  from first_error_write_once [of five_cpu_env "\<lparr>ch_worker = 0, ch_rand = 0, ch_ret = 0\<rparr>"
      ?s ?s1 failing_sched one_node two_thread_ctl five_cpu_rlim ?res] h1 h2 h3 h4 h5 h6
  show ?thesis by simp
qed

section \<open>Coverage\<close>

lemma covered_snoc:
  "covered k (calls @ [c]) = covered k calls \<union> (if fst c = k then call_range c else {})"
  by (auto simp: covered_def)

lemma covered_mem:
  assumes "i < length calls"
  shows "call_range (calls ! i) \<subseteq> covered (fst (calls ! i)) calls"
proof -
  have "calls ! i \<in> {c \<in> set calls. fst c = fst (calls ! i)}" using assms by simp
  then show ?thesis unfolding covered_def by blast
qed

lemma node_disjoint_snoc:
  assumes "node_disjoint calls" and "covered (fst c) calls \<inter> call_range c = {}"
  shows "node_disjoint (calls @ [c])"
  unfolding node_disjoint_def
proof (intro allI impI)
  fix i j
  assume i: "i < length (calls @ [c])" and j: "j < length (calls @ [c])"
    and ne: "i \<noteq> j \<and> fst ((calls @ [c]) ! i) = fst ((calls @ [c]) ! j)"
  consider (old) "i < length calls" "j < length calls"
    | (left) "i < length calls" "j = length calls"
    | (right) "i = length calls" "j < length calls"
    using i j ne by (cases "i < length calls"; cases "j < length calls") auto
  then show "call_range ((calls @ [c]) ! i) \<inter> call_range ((calls @ [c]) ! j) = {}"
  proof cases
    case old
    with assms(1) ne show ?thesis by (simp add: node_disjoint_def nth_append)
  next
    case left
    with ne have "fst (calls ! i) = fst c" by (simp add: nth_append)
    with covered_mem [OF left(1)] assms(2) left show ?thesis
      by (auto simp: nth_append)
  next
    case right
    with ne have "fst (calls ! j) = fst c" by (simp add: nth_append)
    with covered_mem [OF right(2)] assms(2) right show ?thesis
      by (auto simp: nth_append)
  qed
qed

lemma size_ok_claim:
  assumes "size_ok nodes0 s" and j: "j < length (kt_nodes (sys_task s))"
  shows "size_ok nodes0 (claim_chunk w j s)"
proof -
  let ?kt = "sys_task s"
  let ?nodes = "kt_nodes ?kt"
  let ?z = "kn_task_size (?nodes ! j)"
  let ?sz = "min (kt_chunk_size ?kt) ?z"
  let ?kn1 = "(?nodes ! j)\<lparr>kn_start := kc_iter_func (kt_ctl ?kt) (kn_start (?nodes ! j)) ?sz,
                           kn_task_size := ?z - ?sz\<rparr>"
  let ?s1 = "claim_chunk w j s"
  from assms(1) have len: "length ?nodes = length nodes0"
    and tot: "kt_total_size ?kt = of_nat (work_sum ?nodes)"
    and le: "work_sum ?nodes \<le> work_sum nodes0"
    by (simp_all add: size_ok_def)
  have "?sz \<le> ?z" by simp
  then have m2: "unat (?z - ?sz) = unat ?z - unat ?sz" by (rule unat_sub)
  have m3: "unat ?sz \<le> unat ?z" by (simp add: min_def word_le_nat_alt)
  have nodes1: "kt_nodes (sys_task ?s1) = ?nodes[j := ?kn1]"
    by (simp add: claim_chunk_fields)
  have u: "work_sum (?nodes[j := ?kn1]) + unat ?z = work_sum ?nodes + unat (kn_task_size ?kn1)"
    using j by (rule work_sum_update)
  have "unat (kn_task_size ?kn1) = unat ?z - unat ?sz" using m2 by simp
  with u m3 have sum1: "work_sum (?nodes[j := ?kn1]) + unat ?sz = work_sum ?nodes"
    by linarith
  have "(of_nat (work_sum ?nodes) :: size_t) = of_nat (work_sum (?nodes[j := ?kn1]) + unat ?sz)"
    by (simp only: sum1)
  also have "\<dots> = of_nat (work_sum (?nodes[j := ?kn1])) + ?sz"
    by simp
  finally have "of_nat (work_sum (?nodes[j := ?kn1])) = (of_nat (work_sum ?nodes) - ?sz :: size_t)"
    by simp
  then have "kt_total_size (sys_task ?s1) = of_nat (work_sum (kt_nodes (sys_task ?s1)))"
    using tot nodes1 by (simp add: claim_chunk_fields)
  moreover have "work_sum (kt_nodes (sys_task ?s1)) \<le> work_sum nodes0"
    using sum1 le nodes1 by simp
  moreover have "length (kt_nodes (sys_task ?s1)) = length nodes0"
    using len nodes1 by simp
  ultimately show ?thesis by (simp add: size_ok_def)
qed

lemma range_ok_claim:
  assumes inv: "range_ok nodes0 s" and len: "length (kt_nodes (sys_task s)) = length nodes0"
    and j: "j < length nodes0"
    and it: "kc_iter_func (kt_ctl (sys_task s)) = ktask_iter_range"
    and nowrap: "unat (kn_start (nodes0 ! j)) + unat (kn_task_size (nodes0 ! j)) < 2 ^ 64"
  shows "range_ok nodes0 (claim_chunk w j s)"
proof -
  let ?kt = "sys_task s"
  let ?nodes = "kt_nodes ?kt"
  let ?a = "kn_start (?nodes ! j)"
  let ?z = "kn_task_size (?nodes ! j)"
  let ?sz = "min (kt_chunk_size ?kt) ?z"
  let ?kn1 = "(?nodes ! j)\<lparr>kn_start := ?a + ?sz, kn_task_size := ?z - ?sz\<rparr>"
  let ?c = "(j, ?a, ?a + ?sz)"
  let ?s1 = "claim_chunk w j s"
  from inv have idx: "\<forall>c \<in> set (sys_calls s). fst c < length nodes0"
    and dis: "node_disjoint (sys_calls s)"
    and per: "\<And>k. k < length nodes0 \<Longrightarrow>
            kn_start (nodes0 ! k) \<le> kn_start (?nodes ! k)
          \<and> unat (kn_start (?nodes ! k)) + unat (kn_task_size (?nodes ! k))
              = unat (kn_start (nodes0 ! k)) + unat (kn_task_size (nodes0 ! k))
          \<and> covered k (sys_calls s) = {kn_start (nodes0 ! k)..<kn_start (?nodes ! k)}"
    by (simp_all add: range_ok_def)
  have nodes1: "kt_nodes (sys_task ?s1) = ?nodes[j := ?kn1]"
    by (simp add: claim_chunk_fields it ktask_iter_range_def)
  have calls1: "sys_calls ?s1 = sys_calls s @ [?c]"
    by (simp add: claim_chunk_fields it ktask_iter_range_def)
  from per [OF j] have a0: "kn_start (nodes0 ! j) \<le> ?a"
    and eq: "unat ?a + unat ?z = unat (kn_start (nodes0 ! j)) + unat (kn_task_size (nodes0 ! j))"
    and cov: "covered j (sys_calls s) = {kn_start (nodes0 ! j)..<?a}"
    by simp_all
  have "?sz \<le> ?z" by simp
  then have m2: "unat (?z - ?sz) = unat ?z - unat ?sz" by (rule unat_sub)
  have m3: "unat ?sz \<le> unat ?z" by (simp add: min_def word_le_nat_alt)
  from eq nowrap m3 have "unat ?a + unat ?sz < 2 ^ LENGTH(64)" by simp
  then have add: "unat (?a + ?sz) = unat ?a + unat ?sz" by (simp only: unat_add_lem)
  then have a1: "?a \<le> ?a + ?sz" by (simp add: word_le_nat_alt)
  have eq1: "unat (?a + ?sz) + unat (?z - ?sz)
             = unat (kn_start (nodes0 ! j)) + unat (kn_task_size (nodes0 ! j))"
    using add m2 m3 eq by linarith
  have un: "{kn_start (nodes0 ! j)..<?a} \<union> {?a..<?a + ?sz} = {kn_start (nodes0 ! j)..<?a + ?sz}"
    using a0 a1 by (rule ivl_disj_un_two)
  have "covered (fst ?c) (sys_calls s) \<inter> call_range ?c = {}"
    using cov by (auto simp: call_range_def)
  with dis have dis1: "node_disjoint (sys_calls ?s1)"
    unfolding calls1 by (rule node_disjoint_snoc)
  have idx1: "\<forall>c \<in> set (sys_calls ?s1). fst c < length nodes0"
    using idx j by (simp add: calls1)
  have per1: "kn_start (nodes0 ! k) \<le> kn_start (kt_nodes (sys_task ?s1) ! k)
          \<and> unat (kn_start (kt_nodes (sys_task ?s1) ! k))
              + unat (kn_task_size (kt_nodes (sys_task ?s1) ! k))
              = unat (kn_start (nodes0 ! k)) + unat (kn_task_size (nodes0 ! k))
          \<and> covered k (sys_calls ?s1)
              = {kn_start (nodes0 ! k)..<kn_start (kt_nodes (sys_task ?s1) ! k)}"
    if k: "k < length nodes0" for k
  proof (cases "k = j")
    case True
    have "kt_nodes (sys_task ?s1) ! k = ?kn1" using True j len nodes1 by simp
    moreover have "kn_start (nodes0 ! j) \<le> ?a + ?sz" using a0 a1 by (rule order_trans)
    moreover have "covered j (sys_calls ?s1) = {kn_start (nodes0 ! j)..<?a + ?sz}"
      using cov un by (simp add: calls1 covered_snoc call_range_def)
    ultimately show ?thesis using True eq1 by simp
  next
    case False
    then have "kt_nodes (sys_task ?s1) ! k = ?nodes ! k" using nodes1 by simp
    moreover have "covered k (sys_calls ?s1) = covered k (sys_calls s)"
      using False by (simp add: calls1 covered_snoc)
    ultimately show ?thesis using per [OF k] by simp
  qed
  from idx1 dis1 per1 show ?thesis by (simp add: range_ok_def)
qed

lemma size_range_ok_cong:
  assumes "kt_nodes (sys_task s1) = kt_nodes (sys_task s)"
    and "kt_total_size (sys_task s1) = kt_total_size (sys_task s)"
    and "sys_calls s1 = sys_calls s"
  shows "size_ok nodes0 s1 = size_ok nodes0 s" and "range_ok nodes0 s1 = range_ok nodes0 s"
  using assms by (simp_all add: size_ok_def range_ok_def)

lemma thread_loop_cover:
  assumes sz: "size_ok nodes0 s" and rg: "range_ok nodes0 s"
    and it: "kc_iter_func (kt_ctl (sys_task s)) = ktask_iter_range"
    and nowrap: "\<forall>k < length nodes0.
                   unat (kn_start (nodes0 ! k)) + unat (kn_task_size (nodes0 ! k)) < 2 ^ 64"
    and step: "thread_loop env ch w k s = Inr s1"
  shows "size_ok nodes0 s1 \<and> range_ok nodes0 s1
         \<and> kc_iter_func (kt_ctl (sys_task s1)) = ktask_iter_range"
  using step
proof (cases rule: thread_loop_cases)
  case exit
  have "size_ok nodes0 (thread_exit w s) = size_ok nodes0 s"
    by (rule size_range_ok_cong) (simp_all add: thread_exit_fields)
  moreover have "range_ok nodes0 (thread_exit w s) = range_ok nodes0 s"
    by (rule size_range_ok_cong) (simp_all add: thread_exit_fields)
  ultimately show ?thesis using sz rg it exit(2) by (simp add: thread_exit_fields)
next
  case (claim j)
  from sz have len: "length (kt_nodes (sys_task s)) = length nodes0" by (simp add: size_ok_def)
  with claim(4) have j: "j < length nodes0" by simp
  from sz claim(4) have "size_ok nodes0 (claim_chunk w j s)" by (rule size_ok_claim)
  moreover from rg len j it have "range_ok nodes0 (claim_chunk w j s)"
    by (rule range_ok_claim) (use nowrap j in simp)
  ultimately show ?thesis using claim(6) it by (simp add: claim_chunk_fields)
next
  case (migrate kw rl)
  with sz rg it show ?thesis
    by (simp add: size_ok_def range_ok_def)
qed

lemma stop_ok_latch: "stop_ok s \<Longrightarrow> stop_ok (latch_error ret s)"
  by (auto simp: stop_ok_def latch_error_fields)

lemma thread_loop_stop_ok:
  assumes st: "stop_ok s" and step: "thread_loop env ch w k s = Inr s1"
  shows "stop_ok s1"
  using step
proof (cases rule: thread_loop_cases)
  case exit
  then have "kt_total_size (sys_task s) = 0 \<or> kt_error (sys_task s) \<noteq> KTASK_RETURN_SUCCESS"
    by (auto simp: word_neq_0_conv)
  with st exit(2) show ?thesis by (simp add: stop_ok_def thread_exit_fields)
next
  case (claim j)
  with st have nf: "\<forall>wk \<in> set (sys_workers s). w_state wk \<noteq> Finished"
    by (auto simp: stop_ok_def)
  have "set ((sys_workers s)[w := (sys_workers s ! w)\<lparr>w_state := Processing j\<rparr>])
        \<subseteq> insert ((sys_workers s ! w)\<lparr>w_state := Processing j\<rparr>) (set (sys_workers s))"
    by (rule set_update_subset_insert)
  with nf have "\<forall>wk \<in> set (sys_workers s1). w_state wk \<noteq> Finished"
    by (auto simp: claim(6) claim_chunk_fields)
  moreover have "sys_workers s1 \<noteq> []" using st by (simp add: stop_ok_def claim(6) claim_chunk_fields)
  ultimately show ?thesis by (auto simp: stop_ok_def)
next
  case (migrate kw rl)
  with st have nf: "\<forall>wk \<in> set (sys_workers s). w_state wk \<noteq> Finished"
    by (auto simp: stop_ok_def)
  have "set ((sys_workers s)[w := (sys_workers s ! w)\<lparr>w_kw := kw, w_state := Queued\<rparr>])
        \<subseteq> insert ((sys_workers s ! w)\<lparr>w_kw := kw, w_state := Queued\<rparr>) (set (sys_workers s))"
    by (rule set_update_subset_insert)
  with nf have "\<forall>wk \<in> set (sys_workers s1). w_state wk \<noteq> Finished"
    by (auto simp: migrate(7))
  moreover have "sys_workers s1 \<noteq> []" using st by (simp add: stop_ok_def migrate(7))
  ultimately show ?thesis by (auto simp: stop_ok_def)
qed

lemma sched_step_cover:
  assumes "sched_step env ch s = Inr s1"
    and "size_ok nodes0 s" and "range_ok nodes0 s" and "stop_ok s"
    and "kc_iter_func (kt_ctl (sys_task s)) = ktask_iter_range"
    and nowrap: "\<forall>k < length nodes0.
                   unat (kn_start (nodes0 ! k)) + unat (kn_task_size (nodes0 ! k)) < 2 ^ 64"
  shows "size_ok nodes0 s1 \<and> range_ok nodes0 s1 \<and> stop_ok s1
         \<and> kc_iter_func (kt_ctl (sys_task s1)) = ktask_iter_range"
  using assms(1)
proof (cases rule: sched_step_cases)
  case idle
  with assms show ?thesis by simp
next
  case (queued w)
  from thread_loop_cover [OF assms(2,3,5) nowrap queued(3)]
    thread_loop_stop_ok [OF assms(4) queued(3)]
  show ?thesis by simp
next
  case (processing w k)
  let ?s0 = "latch_error (ch_ret ch) s"
  have "size_ok nodes0 ?s0 = size_ok nodes0 s" "range_ok nodes0 ?s0 = range_ok nodes0 s"
    by (rule size_range_ok_cong; simp add: latch_error_fields)+
  with assms(2,3) have "size_ok nodes0 ?s0" "range_ok nodes0 ?s0" by simp_all
  moreover have "kc_iter_func (kt_ctl (sys_task ?s0)) = ktask_iter_range"
    using assms(5) by (simp add: latch_error_fields)
  ultimately have "size_ok nodes0 s1 \<and> range_ok nodes0 s1
         \<and> kc_iter_func (kt_ctl (sys_task s1)) = ktask_iter_range"
    using nowrap processing(3) by (rule thread_loop_cover)
  moreover have "stop_ok s1"
    using stop_ok_latch [OF assms(4)] processing(3) by (rule thread_loop_stop_ok)
  ultimately show ?thesis by simp
qed

lemma exec_cover:
  assumes "exec env sched s = Inr s1"
    and "size_ok nodes0 s" and "range_ok nodes0 s" and "stop_ok s"
    and "kc_iter_func (kt_ctl (sys_task s)) = ktask_iter_range"
    and nowrap: "\<forall>k < length nodes0.
                   unat (kn_start (nodes0 ! k)) + unat (kn_task_size (nodes0 ! k)) < 2 ^ 64"
  shows "size_ok nodes0 s1 \<and> range_ok nodes0 s1 \<and> stop_ok s1"
  using assms(1-5)
proof (induction sched arbitrary: s)
  case Nil
  then show ?case by simp
next
  case (Cons ch chs)
  from Cons.prems(1) obtain s2 where st: "sched_step env ch s = Inr s2"
    and ex: "exec env chs s2 = Inr s1"
    by (auto split: sum.splits)
  from sched_step_cover [OF st Cons.prems(2-5) nowrap]
  have "size_ok nodes0 s2" "range_ok nodes0 s2" "stop_ok s2"
    "kc_iter_func (kt_ctl (sys_task s2)) = ktask_iter_range" by simp_all
  with ex show ?case by (intro Cons.IH)
qed

lemma finished_covered:
  assumes sz: "size_ok nodes0 s" and rg: "range_ok nodes0 s" and st: "stop_ok s"
    and fin: "fini_ok s" and d: "kt_ktask_done (sys_task s)"
    and ok: "kt_error (sys_task s) = KTASK_RETURN_SUCCESS"
    and sum: "work_sum nodes0 < 2 ^ 64"
    and nowrap: "\<forall>k < length nodes0.
                   unat (kn_start (nodes0 ! k)) + unat (kn_task_size (nodes0 ! k)) < 2 ^ 64"
    and k: "k < length nodes0"
  shows "covered k (sys_calls s) = node_range (nodes0 ! k)"
proof -
  let ?nodes = "kt_nodes (sys_task s)"
  from fin d have "list_all (\<lambda>wk. w_state wk = Finished) (sys_workers s)"
    by (simp add: fini_ok_def runnable_empty_iff)
  moreover from st obtain wk where "wk \<in> set (sys_workers s)"
    by (cases "sys_workers s") (auto simp: stop_ok_def)
  ultimately have "\<exists>wk \<in> set (sys_workers s). w_state wk = Finished"
    by (auto simp: list_all_iff)
  with st ok have t0: "kt_total_size (sys_task s) = 0" by (simp add: stop_ok_def)
  from sz have len: "length ?nodes = length nodes0"
    and tot: "kt_total_size (sys_task s) = of_nat (work_sum ?nodes)"
    and le: "work_sum ?nodes \<le> work_sum nodes0"
    by (simp_all add: size_ok_def)
  from le sum have "work_sum ?nodes < 2 ^ 64" by simp
  then have "unat (of_nat (work_sum ?nodes) :: size_t) = work_sum ?nodes"
    by (simp add: unat_of_nat)
  with t0 tot have "work_sum ?nodes = 0" by simp
  then have "kn_task_size (?nodes ! k) = 0"
    using k len by (simp add: work_sum_zero_iff)
  moreover from rg k have eq: "unat (kn_start (?nodes ! k)) + unat (kn_task_size (?nodes ! k))
              = unat (kn_start (nodes0 ! k)) + unat (kn_task_size (nodes0 ! k))"
    and cov: "covered k (sys_calls s) = {kn_start (nodes0 ! k)..<kn_start (?nodes ! k)}"
    by (simp_all add: range_ok_def)
  ultimately have u: "unat (kn_start (?nodes ! k))
                      = unat (kn_start (nodes0 ! k)) + unat (kn_task_size (nodes0 ! k))"
    by simp
  from nowrap k have "unat (kn_start (nodes0 ! k)) + unat (kn_task_size (nodes0 ! k))
                      < 2 ^ LENGTH(64)" by simp
  then have "unat (kn_start (nodes0 ! k) + kn_task_size (nodes0 ! k))
             = unat (kn_start (nodes0 ! k)) + unat (kn_task_size (nodes0 ! k))"
    by (simp only: unat_add_lem)
  with u have "kn_start (?nodes ! k) = kn_start (nodes0 ! k) + kn_task_size (nodes0 ! k)"
    by (simp add: word_unat_eq_iff)
  with cov show ?thesis by (simp add: node_range_def)
qed

lemma initial_cover:
  assumes "kt_nodes (sys_task s0) = nodes" and "sys_calls s0 = []"
    and "kt_total_size (sys_task s0) = of_nat (work_sum nodes)"
    and "sys_workers s0 \<noteq> []"
    and "list_all (\<lambda>wk. w_state wk = Queued) (sys_workers s0)"
  shows "size_ok nodes s0" and "range_ok nodes s0" and "stop_ok s0"
proof -
  show "size_ok nodes s0" using assms(1,3) by (simp add: size_ok_def)
  show "range_ok nodes s0" using assms(1,2)
    by (simp add: range_ok_def node_disjoint_def covered_def)
  show "stop_ok s0" using assms(4,5) by (auto simp: stop_ok_def list_all_iff)
qed

lemma ktask_run_numa_covered:
  assumes run: "ktask_run_numa env sched nodes ctl rl = Inr res"
    and ok: "res_status res = KTASK_RETURN_SUCCESS"
    and it: "kc_iter_func ctl = ktask_iter_range"
    and sum: "work_sum nodes < 2 ^ 64"
    and nowrap: "\<forall>kn \<in> set nodes. unat (kn_start kn) + unat (kn_task_size kn) < 2 ^ 64"
  shows "(\<forall>k < length nodes. covered k (res_calls res) = node_range (nodes ! k))
       \<and> node_disjoint (res_calls res)
       \<and> (\<forall>c \<in> set (res_calls res). fst c < length nodes)"
proof (cases "(of_nat (work_sum nodes) :: size_t) = 0")
  case True
  with run have c: "res_calls res = []" by (auto simp: ktask_run_numa_done)
  from sum have "unat (of_nat (work_sum nodes) :: size_t) = work_sum nodes"
    by (simp add: unat_of_nat)
  with True have "work_sum nodes = 0" by simp
  then have "\<forall>k < length nodes. node_range (nodes ! k) = {}"
    by (simp add: work_sum_zero_iff node_range_def)
  with c show ?thesis by (simp add: covered_def node_disjoint_def)
next
  case False
  from run False have adm: "env_wq env \<longrightarrow> kc_min_chunk_size ctl \<noteq> 0"
    by (rule ktask_run_numa_admitted)
  have nw: "\<forall>k < length nodes.
              unat (kn_start (nodes ! k)) + unat (kn_task_size (nodes ! k)) < 2 ^ 64"
    using nowrap by simp
  from False adm show ?thesis
  proof (rule ktask_run_numa_start [where rl = rl])
    fix s0
    assume fin: "fini_ok s0" and n0: "kt_nodes (sys_task s0) = nodes"
      and ctl0: "kt_ctl (sys_task s0) = ctl"
      and c0: "sys_calls s0 = []"
      and q0: "list_all (\<lambda>wk. w_state wk = Queued) (sys_workers s0)"
      and t0: "kt_total_size (sys_task s0) = of_nat (work_sum nodes)"
      and w0: "sys_workers s0 \<noteq> []"
      and e0: "kt_error (sys_task s0) = KTASK_RETURN_SUCCESS" and r0: "sys_rets s0 = []"
      and run0: "\<And>sched. ktask_run_numa env sched nodes ctl rl =
           (case exec env sched s0 of Inl e \<Rightarrow> Inl e | Inr s \<Rightarrow> wait_and_finish env s)"
    note init = initial_cover [OF n0 c0 t0 w0 q0]
    have it0: "kc_iter_func (kt_ctl (sys_task s0)) = ktask_iter_range" using ctl0 it by simp
    have err0: "err_ok s0"
      using e0 c0 r0 queued_no_in_flight [OF q0] by (simp add: err_ok_def first_error_def)
    from run run0 obtain s where ex: "exec env sched s0 = Inr s"
      and wf: "wait_and_finish env s = Inr res"
      by (auto split: sum.splits)
    from exec_cover [OF ex init it0 nw]
    have sz: "size_ok nodes s" and rg: "range_ok nodes s" and st: "stop_ok s" by simp_all
    from exec_err_fini_ok [OF ex err0 fin] have f: "fini_ok s" by simp
    from wf have d: "kt_ktask_done (sys_task s)"
      and res: "res_status res = kt_error (sys_task s)" "res_calls res = sys_calls s"
      by (auto simp: wait_and_finish_def split: if_splits)
    from ok res have e: "kt_error (sys_task s) = KTASK_RETURN_SUCCESS" by simp
    have "covered k (sys_calls s) = node_range (nodes ! k)" if "k < length nodes" for k
      using sz rg st f d e sum nw that by (rule finished_covered)
    moreover from rg have "node_disjoint (sys_calls s)"
      "\<forall>c \<in> set (sys_calls s). fst c < length nodes"
      by (simp_all add: range_ok_def)
    ultimately show ?thesis using res by simp
  qed
qed

lemma all_disjoint_nodes:
  assumes nd: "node_disjoint calls" and idx: "\<forall>c \<in> set calls. fst c < n"
    and cov: "\<forall>k < n. covered k calls = R k"
    and dis: "\<forall>k < n. \<forall>k' < n. k \<noteq> k' \<longrightarrow> R k \<inter> R k' = {}"
  shows "all_disjoint calls"
  unfolding all_disjoint_def
proof (intro allI impI)
  fix i j
  assume i: "i < length calls" and j: "j < length calls" and ne: "i \<noteq> j"
  show "call_range (calls ! i) \<inter> call_range (calls ! j) = {}"
  proof (cases "fst (calls ! i) = fst (calls ! j)")
    case True
    with nd i j ne show ?thesis by (simp add: node_disjoint_def)
  next
    case False
    from idx i j have ki: "fst (calls ! i) < n" and kj: "fst (calls ! j) < n" by simp_all
    from covered_mem [OF i] cov ki have "call_range (calls ! i) \<subseteq> R (fst (calls ! i))" by simp
    moreover from covered_mem [OF j] cov kj have "call_range (calls ! j) \<subseteq> R (fst (calls ! j))"
      by simp
    moreover from dis ki kj False have "R (fst (calls ! i)) \<inter> R (fst (calls ! j)) = {}" by simp
    ultimately show ?thesis by blast
  qed
qed

section \<open>The single-worker scenario\<close>

lemma ktask_init_works_one_thread:
  assumes "kc_max_threads ctl = 1" and "kc_min_chunk_size ctl \<noteq> 0"
  shows "ktask_init_works env nodes total_size ctl rl = Inr (1, rl, [])"
proof (cases "env_wq env")
  case False
  then show ?thesis by (simp add: ktask_init_works_def)
next
  case True
  let ?c = "min (min (DIV_ROUND_UP total_size (kc_min_chunk_size ctl)) (env_online_cpus env)) 1"
  have "?c \<le> 1" by simp
  then have "\<not> 1 < ?c" by (simp add: not_less)
  then have "init_works_loop env nodes ?c 1 1 rl [] = Inr (1, rl, [])"
    by (rule init_works_loop_stop)
  with True assms show ?thesis by (simp add: ktask_init_works_def Let_def)
qed

lemma single_exec:
  fixes env :: ktask_env and rl :: ktask_rlim
  defines "ctl \<equiv> \<lparr>kc_iter_func = ktask_iter_range, kc_min_chunk_size = 64, kc_max_threads = 1\<rparr>"
  defines "s0 \<equiv> initial_sys env [\<lparr>kn_start = 0, kn_task_size = 1024, kn_nid = env_node_id env\<rparr>]
                   ctl 1024 1 1 1024 rl [] (env_node_id env)"
  shows "exec env sched s0 = Inr s \<Longrightarrow> kt_ktask_done (sys_task s) \<Longrightarrow>
         sys_calls s = [(0, 0, 1024)]"
proof -
  assume ex: "exec env sched s0 = Inr s" and d: "kt_ktask_done (sys_task s)"
  let ?sa = "claim_chunk 0 0 s0"
  have r0: "runnable s0 = [0]" by (simp add: runnable_def s0_def initial_sys_def)
  have st0: "sched_step env ch s0 = Inr ?sa" for ch
    by (simp add: sched_step_def r0)
      (simp add: ktask_thread_step_def thread_loop_def s0_def initial_sys_def
        KTASK_RETURN_SUCCESS_def)
  have ra: "runnable ?sa = [0]"
    by (simp add: runnable_def claim_chunk_fields s0_def initial_sys_def)
  have ta: "kt_total_size (sys_task ?sa) = 0" "sys_calls ?sa = [(0, 0, 1024)]"
    "\<not> kt_ktask_done (sys_task ?sa)"
    by (simp_all add: claim_chunk_fields s0_def initial_sys_def ctl_def ktask_iter_range_def)
  have wa: "w_state (sys_workers ?sa ! 0) = Processing 0"
    by (simp add: claim_chunk_fields s0_def initial_sys_def)
  have sta: "sched_step env ch ?sa = Inr (thread_exit 0 (latch_error (ch_ret ch) ?sa))" for ch
    using ta(1) wa
    by (simp add: sched_step_def ra)
      (simp add: ktask_thread_step_def thread_loop_def latch_error_fields)
  have rb: "runnable (thread_exit 0 (latch_error r ?sa)) = []" for r
    by (simp add: runnable_def thread_exit_fields latch_error_fields claim_chunk_fields
        s0_def initial_sys_def)
  have cb: "sys_calls (thread_exit 0 (latch_error r ?sa)) = [(0, 0, 1024)]" for r
    by (simp add: thread_exit_fields latch_error_fields ta(2))
  show ?thesis
  proof (cases sched)
    case Nil
    with ex have "s = s0" by simp
    moreover have "\<not> kt_ktask_done (sys_task s0)" by (simp add: s0_def initial_sys_fields)
    ultimately show ?thesis using d by simp
  next
    case (Cons c1 rest)
    show ?thesis
    proof (cases rest)
      case Nil
      with Cons ex st0 [of c1] d ta(3) show ?thesis by simp
    next
      case (Cons c2 rest2)
      with \<open>sched = c1 # rest\<close> ex st0 [of c1] sta [of c2]
      have "exec env rest2 (thread_exit 0 (latch_error (ch_ret c2) ?sa)) = Inr s" by simp
      with exec_idle [OF rb, of env rest2 "ch_ret c2"] cb [of "ch_ret c2"]
      show ?thesis by simp
    qed
  qed
qed

lemma ktask_run_single_worker:
  assumes "ktask_run env sched 0 1024
             \<lparr>kc_iter_func = ktask_iter_range, kc_min_chunk_size = 64, kc_max_threads = 1\<rparr> rl
           = Inr res"
  shows "res_calls res = [(0, 0, 1024)]"
proof -
  let ?ctl = "\<lparr>kc_iter_func = ktask_iter_range, kc_min_chunk_size = 64, kc_max_threads = 1\<rparr>"
  let ?nodes = "[\<lparr>kn_start = 0, kn_task_size = 1024, kn_nid = env_node_id env\<rparr>]"
  let ?s0 = "initial_sys env ?nodes ?ctl 1024 1 1 1024 rl [] (env_node_id env)"
  have iw: "ktask_init_works env ?nodes 1024 ?ctl rl = Inr (1, rl, [])"
    by (rule ktask_init_works_one_thread) simp_all
  have cs: "ktask_chunk_size 1024 64 1 = Inr 1024" by (simp add: ktask_chunk_size_def)
  have "ktask_run env sched 0 1024 ?ctl rl =
          (case exec env sched ?s0 of Inl e \<Rightarrow> Inl e | Inr s \<Rightarrow> wait_and_finish env s)"
    by (simp add: ktask_run_def ktask_run_numa_def iw cs)
  with assms obtain s where ex: "exec env sched ?s0 = Inr s"
    and wf: "wait_and_finish env s = Inr res"
    by (auto split: sum.splits)
  from wf have d: "kt_ktask_done (sys_task s)" and res: "res_calls res = sys_calls s"
    by (auto simp: wait_and_finish_def split: if_splits)
  from single_exec [OF ex d] res show ?thesis by simp
qed

text \<open>
  C2 fails when the remaining sizes add up to \<open>2^64\<close> or more: \<^verbatim>\<open>kt_total_size\<close> wraps
  around. For two nodes of \<open>2^63\<close> units each it is 0, and \<^verbatim>\<open>ktask_run_numa\<close> returns
  success without a single invocation of the callback, although address 0 lies in the
  range of the first node.
\<close>

theorem ktask_run_numa_coverage_counterexample:
  "ktask_run_numa five_cpu_env [] huge_nodes three_thread_ctl five_cpu_rlim
     = Inr \<lparr>res_status = KTASK_RETURN_SUCCESS, res_rlim = five_cpu_rlim, res_calls = [],
            res_rets = []\<rparr>
   \<and> covered 0 [] = {}
   \<and> 0 \<in> node_range (huge_nodes ! 0)"
proof -
  have "ktask_run_numa five_cpu_env [] huge_nodes three_thread_ctl five_cpu_rlim
     = Inr \<lparr>res_status = KTASK_RETURN_SUCCESS, res_rlim = five_cpu_rlim, res_calls = [],
            res_rets = []\<rparr>"
    by code_simp
  moreover have "covered 0 [] = {}" by (simp add: covered_def)
  moreover have "0 \<in> node_range (huge_nodes ! 0)"
    by (simp add: huge_nodes_def node_range_def)
  ultimately show ?thesis by simp
qed

text \<open>
  C2, amended. Take a node array whose remaining sizes add up to less than \<open>2^64\<close> and
  whose ranges \<open>[start, start + size)\<close> do not wrap around, and a control structure
  with the default iterator. After a run of \<^verbatim>\<open>ktask_run_numa\<close> that returns success, the
  ranges passed to the callback for each node are pairwise disjoint and their union is
  that node's range \<open>[start, start + size)\<close>; when the ranges of the nodes are
  disjoint from each other, all ranges passed to the callback are pairwise disjoint. In
  the single-worker run of 1024 units from address 0 with a minimum chunk size of 64 and
  one thread, the callback is invoked exactly once, with \<open>(0x0, 0x400)\<close>.
\<close>

theorem ktask_run_numa_coverage:
  "(ktask_run_numa env sched nodes ctl rl = Inr res
      \<and> res_status res = KTASK_RETURN_SUCCESS
      \<and> kc_iter_func ctl = ktask_iter_range
      \<and> work_sum nodes < 2 ^ 64
      \<and> (\<forall>kn \<in> set nodes. unat (kn_start kn) + unat (kn_task_size kn) < 2 ^ 64)
    \<longrightarrow> (\<forall>k < length nodes. covered k (res_calls res) = node_range (nodes ! k))
        \<and> node_disjoint (res_calls res)
        \<and> ((\<forall>k < length nodes. \<forall>k' < length nodes.
               k \<noteq> k' \<longrightarrow> node_range (nodes ! k) \<inter> node_range (nodes ! k') = {})
             \<longrightarrow> all_disjoint (res_calls res)))
   \<and> (ktask_run env1 sched1 0 1024
         \<lparr>kc_iter_func = ktask_iter_range, kc_min_chunk_size = 64, kc_max_threads = 1\<rparr> rl1
       = Inr res1
      \<longrightarrow> res_calls res1 = [(0, 0, 0x400)])"
proof -
  have p1: "(\<forall>k < length nodes. covered k (res_calls res) = node_range (nodes ! k))
        \<and> node_disjoint (res_calls res)
        \<and> ((\<forall>k < length nodes. \<forall>k' < length nodes.
               k \<noteq> k' \<longrightarrow> node_range (nodes ! k) \<inter> node_range (nodes ! k') = {})
             \<longrightarrow> all_disjoint (res_calls res))"
    if run: "ktask_run_numa env sched nodes ctl rl = Inr res"
      and ok: "res_status res = KTASK_RETURN_SUCCESS"
      and it: "kc_iter_func ctl = ktask_iter_range"
      and sum: "work_sum nodes < 2 ^ 64"
      and nowrap: "\<forall>kn \<in> set nodes. unat (kn_start kn) + unat (kn_task_size kn) < 2 ^ 64"
  proof -
    from ktask_run_numa_covered [OF run ok it sum nowrap]
    have cov: "\<forall>k < length nodes. covered k (res_calls res) = node_range (nodes ! k)"
      and nd: "node_disjoint (res_calls res)"
      and idx: "\<forall>c \<in> set (res_calls res). fst c < length nodes"
      by simp_all
    have "all_disjoint (res_calls res)"
      if "\<forall>k < length nodes. \<forall>k' < length nodes.
               k \<noteq> k' \<longrightarrow> node_range (nodes ! k) \<inter> node_range (nodes ! k') = {}"
      using nd idx cov that by (rule all_disjoint_nodes)
    with cov nd show ?thesis by simp
  qed
  have p2: "res_calls res1 = [(0, 0, 0x400)]"
    if "ktask_run env1 sched1 0 1024
         \<lparr>kc_iter_func = ktask_iter_range, kc_min_chunk_size = 64, kc_max_threads = 1\<rparr> rl1
       = Inr res1"
    using ktask_run_single_worker [OF that] by simp
  from p1 p2 show ?thesis by blast
qed

theorem ktask_run_numa_coverage_witness:
  "ktask_run_numa five_cpu_env caller_first_sched two_nodes three_thread_ctl five_cpu_rlim
     = Inr \<lparr>res_status = KTASK_RETURN_SUCCESS, res_rlim = five_cpu_rlim,
            res_calls = [(0, 0, 2048), (0, 2048, 4096), (1, 65536, 67584), (1, 67584, 69632)],
            res_rets = [0, 0, 0, 0]\<rparr>
   \<and> kc_iter_func three_thread_ctl = ktask_iter_range
   \<and> work_sum two_nodes < 2 ^ 64
   \<and> unat (kn_start (two_nodes ! 0)) + unat (kn_task_size (two_nodes ! 0)) < 2 ^ 64
   \<and> unat (kn_start (two_nodes ! 1)) + unat (kn_task_size (two_nodes ! 1)) < 2 ^ 64
   \<and> node_range (two_nodes ! 0) \<inter> node_range (two_nodes ! 1) = {}
   \<and> ktask_run five_cpu_env (replicate 2 \<lparr>ch_worker = 0, ch_rand = 0, ch_ret = 0\<rparr>) 0 1024
         \<lparr>kc_iter_func = ktask_iter_range, kc_min_chunk_size = 64, kc_max_threads = 1\<rparr>
         five_cpu_rlim
     = Inr \<lparr>res_status = KTASK_RETURN_SUCCESS, res_rlim = five_cpu_rlim,
            res_calls = [(0, 0, 1024)], res_rets = [0]\<rparr>
   \<and> covered 0 [(0, 0, 2048), (0, 2048, 4096), (1, 65536, 67584), (1, 67584, 69632)]
     = node_range (two_nodes ! 0)
   \<and> covered 1 [(0, 0, 2048), (0, 2048, 4096), (1, 65536, 67584), (1, 67584, 69632)]
     = node_range (two_nodes ! 1)
   \<and> all_disjoint [(0, 0, 2048), (0, 2048, 4096), (1, 65536, 67584), (1, 67584, 69632)]"
proof -
  let ?res = "\<lparr>res_status = KTASK_RETURN_SUCCESS, res_rlim = five_cpu_rlim,
            res_calls = [(0, 0, 2048), (0, 2048, 4096), (1, 65536, 67584), (1, 67584, 69632)],
            res_rets = [0, 0, 0, 0]\<rparr>"
  let ?res1 = "\<lparr>res_status = KTASK_RETURN_SUCCESS, res_rlim = five_cpu_rlim,
            res_calls = [(0, 0, 1024)], res_rets = [0]\<rparr>"
  let ?ch = "\<lparr>ch_worker = 0, ch_rand = 0, ch_ret = 0\<rparr>"
  have h1: "ktask_run_numa five_cpu_env caller_first_sched two_nodes three_thread_ctl five_cpu_rlim
     = Inr ?res" by code_simp
  have h2: "kc_iter_func three_thread_ctl = ktask_iter_range"
    by (simp add: three_thread_ctl_def)
  have h3: "work_sum two_nodes < 2 ^ 64" by (simp add: work_sum_def two_nodes_def)
  have h4: "\<forall>kn \<in> set two_nodes. unat (kn_start kn) + unat (kn_task_size kn) < 2 ^ 64"
    by (simp add: two_nodes_def)
  have d: "node_range (two_nodes ! 0) \<inter> node_range (two_nodes ! 1) = {}"
    by (auto simp: two_nodes_def node_range_def)
  have h5: "\<forall>k < length two_nodes. \<forall>k' < length two_nodes.
         k \<noteq> k' \<longrightarrow> node_range (two_nodes ! k) \<inter> node_range (two_nodes ! k') = {}"
  proof (intro allI impI)
    fix k k' assume "k < length two_nodes" "k' < length two_nodes" "k \<noteq> k'"
    then have "k = 0 \<and> k' = 1 \<or> k = 1 \<and> k' = 0" by (auto simp: two_nodes_def)
    with d show "node_range (two_nodes ! k) \<inter> node_range (two_nodes ! k') = {}" by auto
  qed
  have h6: "ktask_run five_cpu_env (replicate 2 ?ch) 0 1024
         \<lparr>kc_iter_func = ktask_iter_range, kc_min_chunk_size = 64, kc_max_threads = 1\<rparr>
         five_cpu_rlim = Inr ?res1" by code_simp
  have l: "length two_nodes = 2" by (simp add: two_nodes_def)
  have hs: "ktask_run_numa five_cpu_env caller_first_sched two_nodes three_thread_ctl five_cpu_rlim
        = Inr ?res
      \<and> res_status ?res = KTASK_RETURN_SUCCESS
      \<and> kc_iter_func three_thread_ctl = ktask_iter_range
      \<and> work_sum two_nodes < 2 ^ 64
      \<and> (\<forall>kn \<in> set two_nodes. unat (kn_start kn) + unat (kn_task_size kn) < 2 ^ 64)"
    using h1 h2 h3 h4 by simp
  let ?C = "(\<forall>k < length two_nodes. covered k (res_calls ?res) = node_range (two_nodes ! k))
        \<and> node_disjoint (res_calls ?res)
        \<and> ((\<forall>k < length two_nodes. \<forall>k' < length two_nodes.
               k \<noteq> k' \<longrightarrow> node_range (two_nodes ! k) \<inter> node_range (two_nodes ! k') = {})
             \<longrightarrow> all_disjoint (res_calls ?res))"
  from ktask_run_numa_coverage [of five_cpu_env caller_first_sched two_nodes three_thread_ctl
      five_cpu_rlim ?res five_cpu_env "replicate 2 ?ch" five_cpu_rlim ?res1]
  have "ktask_run_numa five_cpu_env caller_first_sched two_nodes three_thread_ctl five_cpu_rlim
        = Inr ?res
      \<and> res_status ?res = KTASK_RETURN_SUCCESS
      \<and> kc_iter_func three_thread_ctl = ktask_iter_range
      \<and> work_sum two_nodes < 2 ^ 64
      \<and> (\<forall>kn \<in> set two_nodes. unat (kn_start kn) + unat (kn_task_size kn) < 2 ^ 64)
      \<longrightarrow> ?C"
    by (rule conjunct1)
  then have cc: ?C using hs by (rule mp)
  then have c: "\<forall>k < length two_nodes. covered k (res_calls ?res) = node_range (two_nodes ! k)"
    by (rule conjunct1)
  from conjunct2 [OF conjunct2 [OF cc]] have a: "all_disjoint (res_calls ?res)"
    using h5 by (rule mp)
  from c l a have "covered 0 (res_calls ?res) = node_range (two_nodes ! 0)"
    "covered 1 (res_calls ?res) = node_range (two_nodes ! 1)" "all_disjoint (res_calls ?res)"
    by simp_all
  moreover have "unat (kn_start (two_nodes ! 0)) + unat (kn_task_size (two_nodes ! 0)) < 2 ^ 64"
    "unat (kn_start (two_nodes ! 1)) + unat (kn_task_size (two_nodes ! 1)) < 2 ^ 64"
    by (simp_all add: two_nodes_def)
  ultimately show ?thesis using h1 h2 h3 d h6 by simp
qed

section \<open>The node a thread moves to\<close>









end
